theory Spec2Isabelle
  imports Complex_Main "HOL-Library.AList" "HOL-Library.Multiset" "HOL-Library.Word"
begin

section \<open>Civil dates: the part of Go's time package that hugo-calendar uses\<close>

text \<open>
  The program reads a \<^verbatim>\<open>time.Time\<close> only through \<^verbatim>\<open>Year()\<close>, \<^verbatim>\<open>Month()\<close>, \<^verbatim>\<open>Day()\<close>,
  \<^verbatim>\<open>Weekday()\<close>, \<^verbatim>\<open>Format\<close> at day or month precision, \<^verbatim>\<open>Before\<close>/\<^verbatim>\<open>After\<close> and
  \<^verbatim>\<open>AddDate\<close>; every value it builds itself is a midnight in UTC. A time is therefore
  kept as its civil date. The time package is a library, not part of the repository: the
  definitions of this section follow its documented behaviour (proleptic Gregorian
  calendar, \<^verbatim>\<open>time.Date\<close> normalising month and day overflow).
\<close>

record civil =
  Year :: int
  Mon :: int
  Day :: int

definition isLeap :: "int \<Rightarrow> bool" where
  "isLeap y \<longleftrightarrow> y mod 4 = 0 \<and> (y mod 100 \<noteq> 0 \<or> y mod 400 = 0)"

text \<open>\<^verbatim>\<open>daysBefore\<close>: the days of a non-leap year before month \<open>m\<close> (1 = January).\<close>

definition daysBefore :: "int \<Rightarrow> int" where
  "daysBefore m =
     (if m \<le> 1 then 0 else if m = 2 then 31 else if m = 3 then 59 else if m = 4 then 90
      else if m = 5 then 120 else if m = 6 then 151 else if m = 7 then 181
      else if m = 8 then 212 else if m = 9 then 243 else if m = 10 then 273
      else if m = 11 then 304 else if m = 12 then 334 else 365)"

definition daysIn :: "int \<Rightarrow> int \<Rightarrow> int" where
  "daysIn y m = (if m = 2 \<and> isLeap y then 29 else daysBefore (m + 1) - daysBefore m)"

text \<open>
  \<^verbatim>\<open>norm(year, month - 1, 12)\<close> of \<^verbatim>\<open>time.Date\<close>: the month is brought into 1..12, the
  overflow going into the year (\<open>div\<close> and \<open>mod\<close> round down, as \<^verbatim>\<open>norm\<close> does).
\<close>

definition normYear :: "int \<Rightarrow> int \<Rightarrow> int" where
  "normYear y m = y + (m - 1) div 12"

definition normMonth :: "int \<Rightarrow> int" where
  "normMonth m = (m - 1) mod 12 + 1"

text \<open>
  \<^verbatim>\<open>time.Date(year, month, day, 0, 0, 0, 0, time.UTC)\<close>: the month is normalised
  first; then a day below 1 borrows from the month before, and a day beyond the month's
  last carries into the next month.
\<close>

function goDate :: "int \<Rightarrow> int \<Rightarrow> int \<Rightarrow> civil" where
  "goDate y m d =
     (let y0 = normYear y m; m0 = normMonth m
      in if d < 1 then goDate y0 (m0 - 1) (d + daysIn (normYear y0 (m0 - 1)) (normMonth (m0 - 1)))
         else if daysIn y0 m0 < d then goDate y0 (m0 + 1) (d - daysIn y0 m0)
         else \<lparr>Year = y0, Mon = m0, Day = d\<rparr>)"
  by pat_completeness auto

lemma normMonth_range: "1 \<le> normMonth m \<and> normMonth m \<le> 12"
  by (simp add: normMonth_def)

lemma daysIn_range: "1 \<le> m \<Longrightarrow> m \<le> 12 \<Longrightarrow> 28 \<le> daysIn y m \<and> daysIn y m \<le> 31"
proof -
  assume "1 \<le> m" "m \<le> 12"
  then have "m = 1 \<or> m = 2 \<or> m = 3 \<or> m = 4 \<or> m = 5 \<or> m = 6 \<or> m = 7 \<or> m = 8 \<or> m = 9
      \<or> m = 10 \<or> m = 11 \<or> m = 12"
    by arith
  then show ?thesis
    by (auto simp: daysIn_def daysBefore_def)
qed

lemma daysIn_normMonth: "28 \<le> daysIn y (normMonth m) \<and> daysIn y (normMonth m) \<le> 31"
  using daysIn_range [of "normMonth m" y] normMonth_range [of m] by simp

termination goDate
proof (relation "measure (\<lambda>(y, m, d). if d < 1 then nat (33 - d) else nat d)")
  show "wf (measure (\<lambda>(y, m, d). if d < 1 then nat (33 - d) else nat d))"
    by simp
next
  fix y m d :: int and y0 m0
  assume "y0 = normYear y m" "m0 = normMonth m" "d < 1"
  then show "((y0, m0 - 1, d + daysIn (normYear y0 (m0 - 1)) (normMonth (m0 - 1))), y, m, d)
      \<in> measure (\<lambda>(y, m, d). if d < 1 then nat (33 - d) else nat d)"
    using daysIn_normMonth [of "normYear y0 (m0 - 1)" "m0 - 1"] by auto
next
  fix y m d :: int and y0 m0
  assume "y0 = normYear y m" "m0 = normMonth m" "\<not> d < 1" "daysIn y0 m0 < d"
  then show "((y0, m0 + 1, d - daysIn y0 m0), y, m, d)
      \<in> measure (\<lambda>(y, m, d). if d < 1 then nat (33 - d) else nat d)"
    using daysIn_normMonth [of y0 m] by auto
qed

declare goDate.simps [simp del]

text \<open>
  The day number of a civil date: the days from 0001-01-01 (a Monday) to it. A record
  whose month or day is out of range denotes the instant that \<^verbatim>\<open>time.Date\<close> gives it.
\<close>

definition daysBeforeYear :: "int \<Rightarrow> int" where
  "daysBeforeYear y = 365 * (y - 1) + (y - 1) div 4 - (y - 1) div 100 + (y - 1) div 400"

definition dayNumber :: "civil \<Rightarrow> int" where
  "dayNumber t =
     (let y = normYear (Year t) (Mon t); m = normMonth (Mon t)
      in daysBeforeYear y + daysBefore m + (if isLeap y \<and> 2 < m then 1 else 0) + (Day t - 1))"

text \<open>\<^verbatim>\<open>Weekday()\<close>: 0 = Sunday, ..., 6 = Saturday.\<close>

definition weekday :: "civil \<Rightarrow> int" where
  "weekday t = (dayNumber t + 1) mod 7"

definition before :: "civil \<Rightarrow> civil \<Rightarrow> bool" where
  "before t u \<longleftrightarrow> dayNumber t < dayNumber u"

definition after :: "civil \<Rightarrow> civil \<Rightarrow> bool" where
  "after t u \<longleftrightarrow> dayNumber u < dayNumber t"

definition addDate :: "civil \<Rightarrow> int \<Rightarrow> int \<Rightarrow> int \<Rightarrow> civil" where
  "addDate t years months days = goDate (Year t + years) (Mon t + months) (Day t + days)"

definition validDate :: "civil \<Rightarrow> bool" where
  "validDate t \<longleftrightarrow> 1 \<le> Mon t \<and> Mon t \<le> 12 \<and> 1 \<le> Day t \<and> Day t \<le> daysIn (Year t) (Mon t)"

subsection \<open>Formatting and parsing\<close>

definition digitChar :: "nat \<Rightarrow> char" where
  "digitChar n = ''0123456789'' ! n"

fun digits :: "nat \<Rightarrow> string" where
  "digits n = (if n < 10 then [digitChar n] else digits (n div 10) @ [digitChar (n mod 10)])"

declare digits.simps [simp del]

text \<open>
  \<^verbatim>\<open>appendInt(b, x, width)\<close>: a minus sign for a negative number, then its decimal
  digits, padded with zeros on the left to the width.
\<close>

definition appendInt :: "int \<Rightarrow> nat \<Rightarrow> string" where
  "appendInt x width =
     (let ds = digits (nat \<bar>x\<bar>)
      in (if x < 0 then ''-'' else []) @ replicate (width - length ds) (CHR ''0'') @ ds)"

text \<open>\<^verbatim>\<open>Format("2006-01-02")\<close> and \<^verbatim>\<open>Format("2006-01")\<close>.\<close>

definition formatDate :: "civil \<Rightarrow> string" where
  "formatDate t = appendInt (Year t) 4 @ ''-'' @ appendInt (Mon t) 2 @ ''-'' @ appendInt (Day t) 2"

definition formatMonth :: "civil \<Rightarrow> string" where
  "formatMonth t = appendInt (Year t) 4 @ ''-'' @ appendInt (Mon t) 2"

definition monthName :: "int \<Rightarrow> string" where
  "monthName m =
     (if m = 1 then ''January'' else if m = 2 then ''February'' else if m = 3 then ''March''
      else if m = 4 then ''April'' else if m = 5 then ''May'' else if m = 6 then ''June''
      else if m = 7 then ''July'' else if m = 8 then ''August'' else if m = 9 then ''September''
      else if m = 10 then ''October'' else if m = 11 then ''November'' else ''December'')"

text \<open>\<^verbatim>\<open>Format("January 2006")\<close>.\<close>

definition formatHeader :: "civil \<Rightarrow> string" where
  "formatHeader t = monthName (Mon t) @ '' '' @ appendInt (Year t) 4"

definition isDigit :: "char \<Rightarrow> bool" where
  "isDigit c \<longleftrightarrow> c \<in> set ''0123456789''"

definition digitVal :: "char \<Rightarrow> int" where
  "digitVal c = int (of_char c) - 48"

text \<open>
  \<^verbatim>\<open>time.Parse("2006-01", s)\<close>: four digits, a dash and two digits, nothing else; the
  month must be in 1..12. The result is the first day of that month.
\<close>

fun parseMonth :: "string \<Rightarrow> civil option" where
  "parseMonth [y1, y2, y3, y4, s1, m1, m2] =
     (if isDigit y1 \<and> isDigit y2 \<and> isDigit y3 \<and> isDigit y4 \<and> s1 = CHR ''-''
         \<and> isDigit m1 \<and> isDigit m2
      then
        (let y = 1000 * digitVal y1 + 100 * digitVal y2 + 10 * digitVal y3 + digitVal y4;
             m = 10 * digitVal m1 + digitVal m2
         in if m \<le> 0 \<or> 12 < m then None else Some \<lparr>Year = y, Mon = m, Day = 1\<rparr>)
      else None)"
| "parseMonth _ = None"

text \<open>
  \<^verbatim>\<open>time.Parse("2006-01-02", s)\<close>: as above with a dash and a two-digit day; the day
  must exist in the month.
\<close>

fun parseDate :: "string \<Rightarrow> civil option" where
  "parseDate [y1, y2, y3, y4, s1, m1, m2, s2, d1, d2] =
     (if isDigit y1 \<and> isDigit y2 \<and> isDigit y3 \<and> isDigit y4 \<and> s1 = CHR ''-''
         \<and> isDigit m1 \<and> isDigit m2 \<and> s2 = CHR ''-'' \<and> isDigit d1 \<and> isDigit d2
      then
        (let y = 1000 * digitVal y1 + 100 * digitVal y2 + 10 * digitVal y3 + digitVal y4;
             m = 10 * digitVal m1 + digitVal m2;
             d = 10 * digitVal d1 + digitVal d2
         in if m \<le> 0 \<or> 12 < m then None
            else if d < 1 \<or> daysIn y m < d then None
            else Some \<lparr>Year = y, Mon = m, Day = d\<rparr>)
      else None)"
| "parseDate _ = None"

section \<open>Command line and terminal\<close>

text \<open>\<^verbatim>\<open>strings.HasPrefix\<close> and \<^verbatim>\<open>strings.Contains\<close>.\<close>

definition hasPrefix :: "string \<Rightarrow> string \<Rightarrow> bool" where
  "hasPrefix s pre \<longleftrightarrow> take (length pre) s = pre"

fun containsStr :: "string \<Rightarrow> string \<Rightarrow> bool" where
  "containsStr [] substr = hasPrefix [] substr"
| "containsStr (c # s) substr = (hasPrefix (c # s) substr \<or> containsStr s substr)"

record Config =
  ProjectPath :: string
  FilterText :: string
  ShowCounts :: bool
  Month :: "string option"

datatype argError =
  MissingProjectPath
  | FilterRequiresValue
  | UnknownFlag string
  | UnexpectedArgument string
  | InvalidMonthFormat string

text \<open>
  The argument loop of \<^verbatim>\<open>parseArgs\<close>, on the arguments from index \<^verbatim>\<open>i\<close> on;
  \<open>now\<close> is \<^verbatim>\<open>time.Now()\<close>.
\<close>

fun parseLoop :: "civil \<Rightarrow> Config \<Rightarrow> string list \<Rightarrow> argError + Config" where
  "parseLoop now config [] = Inr config"
| "parseLoop now config (arg # rest) =
     (if arg = ''-f'' \<or> arg = ''--filter'' then
        (case rest of
           [] \<Rightarrow> Inl FilterRequiresValue
         | v # rest' \<Rightarrow> parseLoop now (config\<lparr>FilterText := v\<rparr>) rest')
      else if arg = ''-c'' \<or> arg = ''--counts'' then
        parseLoop now (config\<lparr>ShowCounts := True\<rparr>) rest
      else if arg = ''-m'' \<or> arg = ''--month'' then
        (case rest of
           [] \<Rightarrow> parseLoop now (config\<lparr>Month := Some (formatMonth now)\<rparr>) rest
         | v # rest' \<Rightarrow>
             if \<not> hasPrefix v ''-'' then parseLoop now (config\<lparr>Month := Some v\<rparr>) rest'
             else parseLoop now (config\<lparr>Month := Some (formatMonth now)\<rparr>) rest)
      else if hasPrefix arg ''-'' then Inl (UnknownFlag arg)
      else if ProjectPath config = [] then parseLoop now (config\<lparr>ProjectPath := arg\<rparr>) rest
      else Inl (UnexpectedArgument arg))"

definition parseArgs :: "civil \<Rightarrow> string list \<Rightarrow> argError + Config" where
  "parseArgs now args =
     (if length args = 0 then Inl MissingProjectPath
      else
        (case parseLoop now \<lparr>ProjectPath = [], FilterText = [], ShowCounts = False, Month = None\<rparr> args of
           Inl e \<Rightarrow> Inl e
         | Inr config \<Rightarrow>
             if ProjectPath config = [] then Inl MissingProjectPath
             else
               (case Month config of
                  None \<Rightarrow> Inr config
                | Some mf \<Rightarrow>
                    (case parseMonth mf of
                       None \<Rightarrow> Inl (InvalidMonthFormat mf)
                     | Some t \<Rightarrow> Inr config))))"

record winsize =
  Row :: "16 word"
  Col :: "16 word"
  Xpixel :: "16 word"
  Ypixel :: "16 word"

text \<open>
  \<^verbatim>\<open>getTerminalWidth\<close>: the answer of the \<^verbatim>\<open>TIOCGWINSZ\<close> ioctl is \<open>None\<close> when the call
  fails (a pipe, a non-interactive run).
\<close>

definition getTerminalWidth :: "winsize option \<Rightarrow> nat" where
  "getTerminalWidth q = (case q of None \<Rightarrow> 80 | Some ws \<Rightarrow> unat (Col ws))"

section \<open>Counting posts by date\<close>

text \<open>
  \<^verbatim>\<open>postCounts\<close> is a Go \<^verbatim>\<open>map[string]int\<close>, kept as an association list with distinct
  keys; the order of the list is one of the orders in which \<^verbatim>\<open>range\<close> may visit the
  map. A missing key reads as 0. (A count is a 64-bit \<^verbatim>\<open>int\<close>; it is incremented once
  per file, so it does not wrap, and is kept as an unbounded integer.)
\<close>

type_synonym postCounts = "(string \<times> int) list"

definition countOf :: "postCounts \<Rightarrow> string \<Rightarrow> int" where
  "countOf postCounts dateKey = (case map_of postCounts dateKey of None \<Rightarrow> 0 | Some c \<Rightarrow> c)"

text \<open>\<^verbatim>\<open>postCounts[dateKey]++\<close>\<close>

definition increment :: "postCounts \<Rightarrow> string \<Rightarrow> postCounts" where
  "increment postCounts dateKey = AList.update dateKey (countOf postCounts dateKey + 1) postCounts"

record PostFrontMatter =
  Title :: string
  Date :: civil
  Draft :: bool

text \<open>
  What \<^verbatim>\<open>filepath.Walk\<close> hands to the callback of \<^verbatim>\<open>parsePostsAndCount\<close>: an error of
  the walk itself, or a file with its base name, its path and the result of
  \<^verbatim>\<open>parsePostFile\<close> on it (an error, or the front matter and the body).
\<close>

datatype walkEntry =
  WalkErr string
  | WalkFile string string "string + PostFrontMatter \<times> string"

datatype message =
  UsageError argError
  | PostsDirNotFound
  | ErrorParsingPosts string
  | CouldNotParsePostFile string string
  | NoPostsFound
  | ErrorParsingMonthFilter

text \<open>
  The callback: the counts and the warnings printed so far go in, and either the error
  that stops the walk or the new counts and warnings come out.
\<close>

fun walkFn :: "string \<Rightarrow> postCounts \<times> message list \<Rightarrow> walkEntry \<Rightarrow> string + postCounts \<times> message list" where
  "walkFn filterText (postCounts, out) (WalkErr err) = Inl err"
| "walkFn filterText (postCounts, out) (WalkFile name path parsed) =
     (if name = ''index.md'' then
        (case parsed of
           Inl err \<Rightarrow> Inr (postCounts, out @ [CouldNotParsePostFile path err])
         | Inr (frontMatter, postBody) \<Rightarrow>
             if Draft frontMatter then Inr (postCounts, out)
             else if filterText \<noteq> [] \<and> containsStr postBody filterText then Inr (postCounts, out)
             else Inr (increment postCounts (formatDate (Date frontMatter)), out))
      else Inr (postCounts, out))"

fun walk :: "string \<Rightarrow> postCounts \<times> message list \<Rightarrow> walkEntry list \<Rightarrow> (postCounts \<times> message list) \<times> string option" where
  "walk filterText st [] = (st, None)"
| "walk filterText st (e # es) =
     (case walkFn filterText st e of
        Inl err \<Rightarrow> (st, Some err)
      | Inr st' \<Rightarrow> walk filterText st' es)"

definition parsePostsAndCount :: "walkEntry list \<Rightarrow> string \<Rightarrow> (postCounts \<times> message list) \<times> string option" where
  "parsePostsAndCount postsPath filterText = walk filterText ([], []) postsPath"

section \<open>The grid of one month\<close>

datatype color = White | BrightGreen | BlackOnWhite

text \<open>
  One part of a row (an element of \<^verbatim>\<open>rowParts\<close>): the two spaces of a cell outside the
  month, or the text that a colour's \<^verbatim>\<open>Sprintf\<close> gives for a day. The day is kept with
  the part (the printed text shows it only when day numbers are displayed), and the
  colour is kept instead of its escape sequences.
\<close>

datatype cell = Padding | DayCell nat color string

fun cellText :: "cell \<Rightarrow> string" where
  "cellText Padding = ''  ''"
| "cellText (DayCell day c txt) = txt"

text \<open>\<^verbatim>\<open>fmt.Sprintf("%2d", n)\<close>: the decimal number, padded with spaces on the left to width 2.\<close>

definition sprintf2d :: "int \<Rightarrow> string" where
  "sprintf2d n =
     (let ds = (if n < 0 then ''-'' else []) @ digits (nat \<bar>n\<bar>)
      in replicate (2 - length ds) (CHR '' '') @ ds)"

text \<open>The branch of the column loop for a valid day of the month: \<^verbatim>\<open>dayStr\<close>.\<close>

definition dayStr :: "civil \<Rightarrow> postCounts \<Rightarrow> string \<Rightarrow> bool \<Rightarrow> nat \<Rightarrow> cell" where
  "dayStr month postCounts currentDateKey showCounts day =
     (let dateKey = formatDate (goDate (Year month) (Mon month) (int day));
          count = countOf postCounts dateKey;
          isToday = (dateKey = currentDateKey)
      in if showCounts then
           (if count > 0 then
              (if isToday then DayCell day BlackOnWhite (sprintf2d count)
               else DayCell day BrightGreen (sprintf2d count))
            else
              (if isToday then DayCell day BlackOnWhite '' 0''
               else DayCell day White '' 0''))
         else
           (if count > 0 then
              (if isToday then DayCell day BlackOnWhite (sprintf2d (int day))
               else DayCell day BrightGreen (sprintf2d (int day)))
            else
              (if isToday then DayCell day BlackOnWhite (sprintf2d (int day))
               else DayCell day White (sprintf2d (int day)))))"

text \<open>
  The column loop \<^verbatim>\<open>for col := 0; col < 7; col++\<close>, from column \<open>col\<close> on: it returns the
  day counter and the parts of the row. \<open>mk\<close> is the branch for a valid day. (Both arms
  of the source's \<^verbatim>\<open>if showCounts\<close> around an empty cell append the same two spaces.)
\<close>

function colLoop :: "(nat \<Rightarrow> cell) \<Rightarrow> nat \<Rightarrow> nat \<Rightarrow> nat \<Rightarrow> nat \<Rightarrow> nat \<Rightarrow> cell list \<Rightarrow> nat \<times> cell list" where
  "colLoop mk startWeekday daysInMonth weekRow col day rowParts =
     (if col < 7 then
        (if weekRow = 0 \<and> col < startWeekday then
           colLoop mk startWeekday daysInMonth weekRow (col + 1) day (rowParts @ [Padding])
         else if day \<le> daysInMonth then
           colLoop mk startWeekday daysInMonth weekRow (col + 1) (day + 1) (rowParts @ [mk day])
         else
           colLoop mk startWeekday daysInMonth weekRow (col + 1) day (rowParts @ [Padding]))
      else (day, rowParts))"
  by pat_completeness auto

termination colLoop
  by (relation "measure (\<lambda>(mk, startWeekday, daysInMonth, weekRow, col, day, rowParts). 7 - col)") auto

declare colLoop.simps [simp del]

text \<open>
  The row loop \<^verbatim>\<open>for day <= daysInMonth || weekRow == 0\<close> with its \<^verbatim>\<open>break\<close>. A row is
  appended as the list of its parts; \<open>rowString\<close> below is the \<^verbatim>\<open>strings.Join\<close> of them.
\<close>

function gridLoop :: "(nat \<Rightarrow> cell) \<Rightarrow> nat \<Rightarrow> nat \<Rightarrow> nat \<Rightarrow> nat \<Rightarrow> cell list list \<Rightarrow> cell list list" where
  "gridLoop mk startWeekday daysInMonth day weekRow grid =
     (if day \<le> daysInMonth \<or> weekRow = 0 then
        (case colLoop mk startWeekday daysInMonth weekRow 0 day [] of
           (day', rowParts) \<Rightarrow>
             if day' > daysInMonth then grid @ [rowParts]
             else gridLoop mk startWeekday daysInMonth day' (weekRow + 1) (grid @ [rowParts]))
      else grid)"
  by pat_completeness auto

lemma colLoop_day_mono: "day \<le> fst (colLoop mk s D w col day parts)"
proof (induction mk s D w col day parts rule: colLoop.induct)
  case (1 mk s D w col day parts)
  then show ?case
    by (subst colLoop.simps) (auto intro: Suc_leD)
qed

lemma colLoop_day_less:
  assumes "w \<noteq> 0" "day \<le> D"
  shows "day < fst (colLoop mk s D w 0 day parts)"
proof -
  have "colLoop mk s D w 0 day parts = colLoop mk s D w (0 + 1) (day + 1) (parts @ [mk day])"
    using assms by (subst colLoop.simps) simp
  moreover have "day + 1 \<le> fst (colLoop mk s D w (0 + 1) (day + 1) (parts @ [mk day]))"
    by (rule colLoop_day_mono)
  ultimately show ?thesis by simp
qed

termination gridLoop
proof (relation "measure (\<lambda>(mk, s, D, day, weekRow, grid). 2 * (D + 1 - day) + (if weekRow = 0 then 1 else 0))")
  show "wf (measure (\<lambda>(mk, s, D, day, weekRow, grid). 2 * (D + 1 - day) + (if weekRow = 0 then 1 else 0)))"
    by simp
next
  fix mk :: "nat \<Rightarrow> cell" and s D day weekRow :: nat and grid :: "cell list list" and day' rowParts
  assume enter: "day \<le> D \<or> weekRow = 0"
    and x: "(day', rowParts) = colLoop mk s D weekRow 0 day []"
    and more: "\<not> D < day'"
  have res: "day' = fst (colLoop mk s D weekRow 0 day [])"
    using x by (metis fst_conv)
  show "((mk, s, D, day', weekRow + 1, grid @ [rowParts]), mk, s, D, day, weekRow, grid)
      \<in> measure (\<lambda>(mk, s, D, day, weekRow, grid). 2 * (D + 1 - day) + (if weekRow = 0 then 1 else 0))"
  proof (cases "weekRow = 0")
    case True
    have "day \<le> day'" unfolding res by (rule colLoop_day_mono)
    with True more show ?thesis by simp
  next
    case False
    with enter have "day \<le> D" by simp
    with False have "day < day'" unfolding res by (rule colLoop_day_less)
    with False more show ?thesis by simp
  qed
qed

declare gridLoop.simps [simp del]

definition generateCalendarGrid :: "civil \<Rightarrow> postCounts \<Rightarrow> bool \<Rightarrow> civil \<Rightarrow> cell list list" where
  "generateCalendarGrid month postCounts showCounts today =
     (let firstDay = goDate (Year month) (Mon month) 1;
          startWeekday = nat (weekday firstDay);
          lastDay = addDate firstDay 0 1 (- 1);
          daysInMonth = nat (Day lastDay);
          currentDateKey = formatDate today
      in gridLoop (dayStr month postCounts currentDateKey showCounts) startWeekday daysInMonth 1 0 [])"

text \<open>\<^verbatim>\<open>strings.Join(elems, sep)\<close>, and the characters of a row: its parts joined by one space.\<close>

fun join :: "string list \<Rightarrow> string \<Rightarrow> string" where
  "join [] sep = []"
| "join [x] sep = x"
| "join (x # y # ys) sep = x @ sep @ join (y # ys) sep"

definition rowString :: "cell list \<Rightarrow> string" where
  "rowString rowParts = join (map cellText rowParts) '' ''"

section \<open>Laying the months out in display rows\<close>

text \<open>
  What is printed: plain text, text through a colour, or a line of a month's grid. One
  display row is kept with the months it shows, its two header lines and its body lines
  (the blank line after it is not kept).
\<close>

datatype piece = Plain string | Colored color string | GridLine "cell list"

fun pieceText :: "piece \<Rightarrow> string" where
  "pieceText (Plain s) = s"
| "pieceText (Colored c s) = s"
| "pieceText (GridLine rowParts) = rowString rowParts"

record displayRow =
  rowMonths :: "civil list"
  monthHeaders :: "piece list"
  dayHeaders :: "piece list"
  calendarRows :: "piece list list"

definition calendarWidth :: nat where
  "calendarWidth = 22"

definition calendarsPerRow :: "nat \<Rightarrow> nat" where
  "calendarsPerRow terminalWidth =
     (let n = terminalWidth div calendarWidth in if n < 1 then 1 else n)"

text \<open>\<^verbatim>\<open>fmt.Sprintf("%-20s", header)\<close>\<close>

definition padRight20 :: "string \<Rightarrow> string" where
  "padRight20 s = s @ replicate (20 - length s) (CHR '' '')"

definition separated :: "nat \<Rightarrow> piece \<Rightarrow> piece list" where
  "separated j p = (if j > 0 then [Plain ''  '', p] else [p])"

definition printMonthHeaders :: "civil list \<Rightarrow> piece list" where
  "printMonthHeaders ms =
     concat (map (\<lambda>(j, month). separated j (Colored White (padRight20 (formatHeader month))))
       (enumerate 0 ms))"

definition printDayHeaders :: "civil list \<Rightarrow> piece list" where
  "printDayHeaders ms =
     concat (map (\<lambda>(j, month). separated j (Colored White ''Su Mo Tu We Th Fr Sa''))
       (enumerate 0 ms))"

definition maxRowsOf :: "cell list list list \<Rightarrow> nat" where
  "maxRowsOf calendarGrids =
     fold (\<lambda>grid maxRows. if length grid > maxRows then length grid else maxRows) calendarGrids 0"

definition printCalendarRow :: "cell list list list \<Rightarrow> nat \<Rightarrow> piece list" where
  "printCalendarRow calendarGrids row =
     concat (map (\<lambda>(idx, grid).
         separated idx (if row < length grid then GridLine (grid ! row)
                        else Plain (replicate 20 (CHR '' ''))))
       (enumerate 0 calendarGrids))"

text \<open>The body of the loop over display rows, for the months \<^verbatim>\<open>months[i:end]\<close>.\<close>

definition printDisplayRow :: "civil list \<Rightarrow> postCounts \<Rightarrow> bool \<Rightarrow> civil \<Rightarrow> displayRow" where
  "printDisplayRow ms postCounts showCounts today =
     (let calendarGrids = map (\<lambda>month. generateCalendarGrid month postCounts showCounts today) ms;
          maxRows = maxRowsOf calendarGrids
      in \<lparr>rowMonths = ms,
          monthHeaders = printMonthHeaders ms,
          dayHeaders = printDayHeaders ms,
          calendarRows = map (printCalendarRow calendarGrids) [0..<maxRows]\<rparr>)"

text \<open>
  The loop \<^verbatim>\<open>for i := 0; i < len(months); i += calendarsPerRow\<close> of \<^verbatim>\<open>renderCalendarGrid\<close>,
  from index \<open>i\<close> on.
\<close>

function displayLoop :: "nat \<Rightarrow> civil list \<Rightarrow> postCounts \<Rightarrow> bool \<Rightarrow> civil \<Rightarrow> nat \<Rightarrow> displayRow list" where
  "displayLoop terminalWidth months postCounts showCounts today i =
     (if i < length months then
        (let endIdx = (if i + calendarsPerRow terminalWidth > length months then length months
                       else i + calendarsPerRow terminalWidth);
             ms = take (endIdx - i) (drop i months)
         in printDisplayRow ms postCounts showCounts today
            # displayLoop terminalWidth months postCounts showCounts today
                (i + calendarsPerRow terminalWidth))
      else [])"
  by pat_completeness auto

termination displayLoop
  by (relation "measure (\<lambda>(terminalWidth, months, postCounts, showCounts, today, i). length months - i)")
    (auto simp: calendarsPerRow_def Let_def)

declare displayLoop.simps [simp del]

definition renderCalendarGrid :: "civil list \<Rightarrow> postCounts \<Rightarrow> bool \<Rightarrow> civil \<Rightarrow> winsize option \<Rightarrow> displayRow list" where
  "renderCalendarGrid months postCounts showCounts today tty =
     displayLoop (getTerminalWidth tty) months postCounts showCounts today 0"

section \<open>Facts about civil dates\<close>

text \<open>The day number of the first day of a month, for a year and a month in 1..12.\<close>

lemma div_step:
  fixes y c :: int
  assumes "0 < c"
  shows "y div c = (y - 1) div c + (if y mod c = 0 then 1 else 0)"
proof (cases "y mod c = 0")
  case True
  have "y - 1 = c * (y div c - 1) + (c - 1)"
    using True by (simp add: algebra_simps) (metis mult_div_mod_eq add.right_neutral)
  then have "(y - 1) div c = y div c - 1"
    using assms by (intro int_div_pos_eq [where r = "c - 1"]) auto
  with True show ?thesis by simp
next
  case False
  have "0 \<le> y mod c" "y mod c < c"
    using assms by simp_all
  with False have r: "0 \<le> y mod c - 1" "y mod c - 1 < c"
    by simp_all
  have "y - 1 = c * (y div c) + (y mod c - 1)"
    by (simp add: algebra_simps)
  then have "(y - 1) div c = y div c"
    using r by (intro int_div_pos_eq [where r = "y mod c - 1"]) auto
  with False show ?thesis by simp
qed

lemma daysBeforeYear_Suc: "daysBeforeYear (y + 1) = daysBeforeYear y + 365 + (if isLeap y then 1 else 0)"
proof -
  define A B C where "A = (y - 1) div 4" and "B = (y - 1) div 100" and "C = (y - 1) div 400"
  define p4 p100 p400 where "p4 \<longleftrightarrow> y mod 4 = 0" and "p100 \<longleftrightarrow> y mod 100 = 0"
    and "p400 \<longleftrightarrow> y mod 400 = 0"
  have e4: "y div 4 = A + (if p4 then 1 else 0)"
    unfolding A_def p4_def by (rule div_step) simp
  have e100: "y div 100 = B + (if p100 then 1 else 0)"
    unfolding B_def p100_def by (rule div_step) simp
  have e400: "y div 400 = C + (if p400 then 1 else 0)"
    unfolding C_def p400_def by (rule div_step) simp
  have a: "p100" if "p400"
  proof -
    from that have "400 dvd y" by (simp add: p400_def mod_eq_0_iff_dvd)
    then have "100 dvd y" by (rule dvd_trans [rotated]) simp
    then show ?thesis by (simp add: p100_def mod_eq_0_iff_dvd)
  qed
  have b: "p4" if "p100"
  proof -
    from that have "100 dvd y" by (simp add: p100_def mod_eq_0_iff_dvd)
    then have "4 dvd y" by (rule dvd_trans [rotated]) simp
    then show ?thesis by (simp add: p4_def mod_eq_0_iff_dvd)
  qed
  have L: "isLeap y \<longleftrightarrow> p4 \<and> (\<not> p100 \<or> p400)"
    by (simp only: isLeap_def p4_def p100_def p400_def)
  have "daysBeforeYear (y + 1) = 365 * y + y div 4 - y div 100 + y div 400"
    by (simp add: daysBeforeYear_def)
  also have "\<dots> = 365 * y + (A + (if p4 then 1 else 0)) - (B + (if p100 then 1 else 0))
      + (C + (if p400 then 1 else 0))"
    by (simp only: e4 e100 e400)
  also have "\<dots> = (365 * (y - 1) + A - B + C) + 365 + (if isLeap y then 1 else 0)"
    using a b unfolding L by (cases p4; cases p100; cases p400) simp_all
  also have "365 * (y - 1) + A - B + C = daysBeforeYear y"
    by (simp only: daysBeforeYear_def A_def B_def C_def)
  finally show ?thesis .
qed

lemma div12_split: "(a + k) div 12 = a div 12 + (a mod 12 + k) div (12::int)"
proof -
  define q r where "q = a div 12" and "r = a mod 12"
  have a: "a = r + 12 * q"
    by (simp add: q_def r_def)
  have "(r + k + 12 * q) div 12 = q + (r + k) div 12"
    by (rule div_mult_self2) simp
  moreover have "a + k = r + k + 12 * q"
    using a by simp
  ultimately show ?thesis
    unfolding q_def [symmetric] r_def [symmetric] by simp
qed

lemma norm_norm:
  "normMonth (normMonth m + k) = normMonth (m + k)"
  "normYear (normYear y m) (normMonth m + k) = normYear y (m + k)"
proof -
  have "((m - 1) mod 12 + k) mod 12 = (m - 1 + k) mod 12"
    by (simp add: mod_add_left_eq)
  then show "normMonth (normMonth m + k) = normMonth (m + k)"
    by (simp add: normMonth_def algebra_simps)
  show "normYear (normYear y m) (normMonth m + k) = normYear y (m + k)"
    using div12_split [of "m - 1" k] by (simp add: normMonth_def normYear_def algebra_simps)
qed

lemma norm_idem: "normMonth (normMonth m) = normMonth m" "normYear (normYear y m) (normMonth m) = normYear y m"
  using norm_norm(1) [of m 0] norm_norm(2) [of y m 0] by simp_all

definition monthStart :: "int \<Rightarrow> int \<Rightarrow> int" where
  "monthStart y m = daysBeforeYear y + daysBefore m + (if isLeap y \<and> 2 < m then 1 else 0)"

lemma monthStart_next:
  assumes "1 \<le> m" "m \<le> 12"
  shows "monthStart (normYear y (m + 1)) (normMonth (m + 1)) = monthStart y m + daysIn y m"
proof -
  from assms have "m = 1 \<or> m = 2 \<or> m = 3 \<or> m = 4 \<or> m = 5 \<or> m = 6 \<or> m = 7 \<or> m = 8 \<or> m = 9
      \<or> m = 10 \<or> m = 11 \<or> m = 12"
    by arith
  then show ?thesis
    by (elim disjE) (simp_all add: monthStart_def normYear_def normMonth_def daysIn_def daysBefore_def daysBeforeYear_Suc)
qed

lemma dayNumber_eq: "dayNumber t = monthStart (normYear (Year t) (Mon t)) (normMonth (Mon t)) + Day t - 1"
  by (simp add: dayNumber_def monthStart_def Let_def)

lemma dayNumber_next_month:
  "dayNumber \<lparr>Year = y, Mon = m + 1, Day = d\<rparr> =
   dayNumber \<lparr>Year = y, Mon = m, Day = d\<rparr> + daysIn (normYear y m) (normMonth m)"
  using monthStart_next [of "normMonth m" "normYear y m"] normMonth_range [of m]
    norm_norm(1) [of m 1] norm_norm(2) [of y m 1]
  by (simp add: dayNumber_eq)

lemma dayNumber_norm:
  "dayNumber \<lparr>Year = normYear y m, Mon = normMonth m + k, Day = d\<rparr> = dayNumber \<lparr>Year = y, Mon = m + k, Day = d\<rparr>"
  by (simp add: dayNumber_eq norm_norm)

lemma dayNumber_goDate: "dayNumber (goDate y m d) = dayNumber \<lparr>Year = y, Mon = m, Day = d\<rparr>"
proof (induction y m d rule: goDate.induct)
  case (1 y m d)
  define y0 m0 where "y0 = normYear y m" and "m0 = normMonth m"
  show ?case
  proof (cases "d < 1")
    case True
    have "goDate y m d = goDate y0 (m0 - 1) (d + daysIn (normYear y0 (m0 - 1)) (normMonth (m0 - 1)))"
      using True by (subst goDate.simps) (simp add: y0_def m0_def Let_def)
    also have "dayNumber \<dots> = dayNumber \<lparr>Year = y0, Mon = m0 - 1, Day = d + daysIn (normYear y0 (m0 - 1)) (normMonth (m0 - 1))\<rparr>"
      using "1.IH"(1) [OF y0_def m0_def True] .
    also have "\<dots> = dayNumber \<lparr>Year = y0, Mon = m0 - 1 + 1, Day = d\<rparr>"
      unfolding dayNumber_next_month [of y0 "m0 - 1" d] by (simp add: dayNumber_eq)
    also have "\<dots> = dayNumber \<lparr>Year = y, Mon = m, Day = d\<rparr>"
      using dayNumber_norm [of y m 0 d] by (simp add: y0_def m0_def)
    finally show ?thesis .
  next
    case False
    note d1 = this
    show ?thesis
    proof (cases "daysIn y0 m0 < d")
      case True
      have "goDate y m d = goDate y0 (m0 + 1) (d - daysIn y0 m0)"
        using d1 True by (subst goDate.simps) (simp add: y0_def m0_def Let_def)
      also have "dayNumber \<dots> = dayNumber \<lparr>Year = y0, Mon = m0 + 1, Day = d - daysIn y0 m0\<rparr>"
        using "1.IH"(2) [OF y0_def m0_def d1 True] .
      also have "\<dots> = dayNumber \<lparr>Year = y, Mon = m + 1, Day = d - daysIn y0 m0\<rparr>"
        unfolding y0_def m0_def by (rule dayNumber_norm)
      also have "\<dots> = dayNumber \<lparr>Year = y, Mon = m, Day = d\<rparr>"
        unfolding dayNumber_next_month [of y m] by (simp add: y0_def m0_def dayNumber_eq)
      finally show ?thesis .
    next
      case False
      have "goDate y m d = \<lparr>Year = y0, Mon = m0, Day = d\<rparr>"
        using d1 False by (subst goDate.simps) (simp add: y0_def m0_def Let_def)
      then show ?thesis
        using dayNumber_norm [of y m 0 d] by (simp add: y0_def m0_def)
    qed
  qed
qed

lemma goDate_valid:
  assumes "1 \<le> d" "d \<le> daysIn (normYear y m) (normMonth m)"
  shows "goDate y m d = \<lparr>Year = normYear y m, Mon = normMonth m, Day = d\<rparr>"
  using assms by (subst goDate.simps) (simp add: Let_def)

lemma goDate_lastDay:
  "goDate y (m + 1) 0 = \<lparr>Year = normYear y m, Mon = normMonth m, Day = daysIn (normYear y m) (normMonth m)\<rparr>"
proof -
  have "goDate y (m + 1) 0 = goDate (normYear y (m + 1)) (normMonth (m + 1) - 1)
      (0 + daysIn (normYear (normYear y (m + 1)) (normMonth (m + 1) - 1)) (normMonth (normMonth (m + 1) - 1)))"
    by (subst goDate.simps) (simp add: Let_def)
  also have "normYear (normYear y (m + 1)) (normMonth (m + 1) - 1) = normYear y m"
    using norm_norm(2) [of y "m + 1" "- 1"] by simp
  also have "normMonth (normMonth (m + 1) - 1) = normMonth m"
    using norm_norm(1) [of "m + 1" "- 1"] by simp
  also have "goDate (normYear y (m + 1)) (normMonth (m + 1) - 1) (0 + daysIn (normYear y m) (normMonth m))
      = \<lparr>Year = normYear y m, Mon = normMonth m, Day = daysIn (normYear y m) (normMonth m)\<rparr>"
    using goDate_valid [of "daysIn (normYear y m) (normMonth m)" "normYear y (m + 1)" "normMonth (m + 1) - 1"]
      daysIn_normMonth [of "normYear y m" m] norm_norm(2) [of y "m + 1" "- 1"] norm_norm(1) [of "m + 1" "- 1"]
    by (simp add: Let_def)
  finally show ?thesis .
qed

lemma dayNumber_addMonth:
  "dayNumber (addDate t 0 1 0) = dayNumber t + daysIn (normYear (Year t) (Mon t)) (normMonth (Mon t))"
proof -
  have "dayNumber (addDate t 0 1 0) = dayNumber \<lparr>Year = Year t, Mon = Mon t + 1, Day = Day t\<rparr>"
    by (simp add: addDate_def dayNumber_goDate)
  also have "\<dots> = dayNumber \<lparr>Year = Year t, Mon = Mon t, Day = Day t\<rparr>
      + daysIn (normYear (Year t) (Mon t)) (normMonth (Mon t))"
    by (rule dayNumber_next_month)
  also have "dayNumber \<lparr>Year = Year t, Mon = Mon t, Day = Day t\<rparr> = dayNumber t"
    by (simp add: dayNumber_eq)
  finally show ?thesis .
qed

section \<open>The months to show\<close>

text \<open>The keys of \<^verbatim>\<open>postCounts\<close> that parse as dates; a key that does not parse is skipped.\<close>

fun parseKeys :: "string list \<Rightarrow> civil list" where
  "parseKeys [] = []"
| "parseKeys (dateStr # rest) =
     (case parseDate dateStr of
        None \<Rightarrow> parseKeys rest
      | Some date \<Rightarrow> date # parseKeys rest)"

text \<open>The scan for the earliest and the latest date.\<close>

fun minMaxLoop :: "civil list \<Rightarrow> civil \<Rightarrow> civil \<Rightarrow> civil \<times> civil" where
  "minMaxLoop [] minDate maxDate = (minDate, maxDate)"
| "minMaxLoop (date # dates) minDate maxDate =
     minMaxLoop dates (if before date minDate then date else minDate)
       (if after date maxDate then date else maxDate)"

text \<open>\<^verbatim>\<open>for !current.After(end) { months = append(months, current); current = current.AddDate(0, 1, 0) }\<close>\<close>

function monthsLoop :: "civil \<Rightarrow> civil \<Rightarrow> civil list \<Rightarrow> civil list" where
  "monthsLoop current endDate months =
     (if \<not> after current endDate then monthsLoop (addDate current 0 1 0) endDate (months @ [current])
      else months)"
  by pat_completeness auto

termination monthsLoop
proof (relation "measure (\<lambda>(current, endDate, months). nat (dayNumber endDate - dayNumber current + 1))")
  show "wf (measure (\<lambda>(current, endDate, months). nat (dayNumber endDate - dayNumber current + 1)))"
    by simp
next
  fix current endDate :: civil and months :: "civil list"
  assume "\<not> after current endDate"
  then have le: "dayNumber current \<le> dayNumber endDate"
    by (simp add: after_def)
  have "28 \<le> daysIn (normYear (Year current) (Mon current)) (normMonth (Mon current))"
    using daysIn_normMonth by simp
  then have "dayNumber current < dayNumber (addDate current 0 1 0)"
    unfolding dayNumber_addMonth by simp
  with le show "((addDate current 0 1 0, endDate, months @ [current]), current, endDate, months)
      \<in> measure (\<lambda>(current, endDate, months). nat (dayNumber endDate - dayNumber current + 1))"
    by simp
qed

declare monthsLoop.simps [simp del]

text \<open>
  \<^verbatim>\<open>renderCalendars\<close>: the messages it prints and the display rows it renders. \<open>today\<close> is
  \<^verbatim>\<open>time.Now()\<close> and \<open>tty\<close> the answer of the terminal to the width query.
\<close>

definition renderCalendars :: "postCounts \<Rightarrow> bool \<Rightarrow> string option \<Rightarrow> civil \<Rightarrow> winsize option \<Rightarrow> message list \<times> displayRow list" where
  "renderCalendars postCounts showCounts monthFilter today tty =
     (case monthFilter of
        Some mf \<Rightarrow>
          (case parseMonth mf of
             None \<Rightarrow> ([ErrorParsingMonthFilter], [])
           | Some targetMonth \<Rightarrow>
               ([], renderCalendarGrid [goDate (Year targetMonth) (Mon targetMonth) 1]
                      postCounts showCounts today tty))
      | None \<Rightarrow>
          (let dates = parseKeys (map fst postCounts)
           in if length dates = 0 then ([], [])
              else
                (case minMaxLoop dates (dates ! 0) (dates ! 0) of
                   (minDate, maxDate) \<Rightarrow>
                     (let current = goDate (Year minDate) (Mon minDate) 1;
                          endDate = goDate (Year maxDate) (Mon maxDate) 1
                      in ([], renderCalendarGrid (monthsLoop current endDate [])
                                postCounts showCounts today tty)))))"

section \<open>The program\<close>

text \<open>
  \<^verbatim>\<open>main\<close>, on the command line arguments, the current time, whether the posts
  directory exists, what the walk of that directory finds, and the terminal: the process
  either exits with status 1 or returns, and in both cases has printed messages and
  display rows.
\<close>

datatype outcome = Exit1 "message list" | Return "message list" "displayRow list"

definition main :: "string list \<Rightarrow> civil \<Rightarrow> bool \<Rightarrow> walkEntry list \<Rightarrow> winsize option \<Rightarrow> outcome" where
  "main args now postsDirExists postsPath tty =
     (case parseArgs now args of
        Inl err \<Rightarrow> Exit1 [UsageError err]
      | Inr config \<Rightarrow>
          if \<not> postsDirExists then Exit1 [PostsDirNotFound]
          else
            (case parsePostsAndCount postsPath (FilterText config) of
               ((postCounts, warnings), Some err) \<Rightarrow> Exit1 (warnings @ [ErrorParsingPosts err])
             | ((postCounts, warnings), None) \<Rightarrow>
                 if length postCounts = 0 then Return (warnings @ [NoPostsFound]) []
                 else
                   (case renderCalendars postCounts (ShowCounts config) (Month config) now tty of
                      (msgs, rows) \<Rightarrow> Return (warnings @ msgs) rows)))"

section \<open>The row loop always emits a row\<close>

lemma gridLoop_longer:
  "day \<le> D \<or> w = 0 \<Longrightarrow> length grid < length (gridLoop mk s D day w grid)"
proof (induction mk s D day w grid rule: gridLoop.induct)
  case (1 mk s D day w grid)
  obtain day' rowParts where c: "colLoop mk s D w 0 day [] = (day', rowParts)"
    by (cases "colLoop mk s D w 0 day []")
  show ?case
  proof (cases "D < day'")
    case True
    with "1.prems" c show ?thesis
      by (subst gridLoop.simps) simp
  next
    case False
    have "length (grid @ [rowParts]) < length (gridLoop mk s D day' (w + 1) (grid @ [rowParts]))"
      using "1.IH" [OF "1.prems" c [symmetric] False] False by simp
    with "1.prems" c False show ?thesis
      by (subst gridLoop.simps) simp
  qed
qed

lemma gridLoop_degenerate: "gridLoop mk s 0 1 0 [] = [snd (colLoop mk s 0 0 0 1 [])]"
proof -
  obtain day' rowParts where c: "colLoop mk s 0 0 0 1 [] = (day', rowParts)"
    by (cases "colLoop mk s 0 0 0 1 []")
  have "1 \<le> day'"
    using colLoop_day_mono [of 1 mk s 0 0 0 "[]"] c by simp
  with c show ?thesis
    by (subst gridLoop.simps) simp
qed

text \<open>
  Claim C8. The row loop of \<^verbatim>\<open>generateCalendarGrid\<close> terminates for every month (it is a
  total function, by the termination proof of \<open>gridLoop\<close>: the day counter grows with
  every row after the first) and the grid it returns has at least one row. This holds
  for the loop with any starting weekday and any day count; with a day count of zero it
  emits exactly one row.
\<close>

theorem generateCalendarGrid_never_empty:
  "1 \<le> length (generateCalendarGrid month postCounts showCounts today)
   \<and> 1 \<le> length (gridLoop mk startWeekday daysInMonth 1 0 [])
   \<and> length (gridLoop mk startWeekday 0 1 0 []) = 1"
proof -
  have a: "1 \<le> length (gridLoop mk' s D 1 0 [])" for mk' s D
    using gridLoop_longer [of 1 D 0 "[]" mk' s] by (simp add: Suc_le_eq)
  have b: "length (gridLoop mk startWeekday 0 1 0 []) = 1"
    unfolding gridLoop_degenerate by simp
  have c: "1 \<le> length (generateCalendarGrid month postCounts showCounts today)"
    unfolding generateCalendarGrid_def Let_def by (rule a)
  from a b c show ?thesis
    by blast
qed

section \<open>The grid, cell by cell\<close>

text \<open>
  The cells of a month are numbered along the rows: cell \<open>p\<close> is in row \<open>p div 7\<close> and
  column \<open>p mod 7\<close>. With starting weekday \<open>s\<close> and \<open>D\<close> days, the cells \<open>s\<close> to
  \<open>s + D - 1\<close> hold the days 1 to \<open>D\<close> and every other cell is padding.
\<close>

definition cellAt :: "(nat \<Rightarrow> cell) \<Rightarrow> nat \<Rightarrow> nat \<Rightarrow> nat \<Rightarrow> cell" where
  "cellAt mk s D p = (if s \<le> p \<and> p < s + D then mk (p - s + 1) else Padding)"

definition weekCells :: "(nat \<Rightarrow> cell) \<Rightarrow> nat \<Rightarrow> nat \<Rightarrow> nat \<Rightarrow> cell list" where
  "weekCells mk s D r = map (cellAt mk s D) [7 * r ..< 7 * r + 7]"

lemma colLoop_spec:
  assumes "s \<le> 7" "col \<le> 7" "day = min (7 * w + col - s) D + 1"
  shows "colLoop mk s D w col day parts =
    (min (7 * w + 7 - s) D + 1, parts @ map (cellAt mk s D) [7 * w + col ..< 7 * w + 7])"
  using assms
proof (induction mk s D w col day parts rule: colLoop.induct)
  case (1 mk s D w col day parts)
  show ?case
  proof (cases "col < 7")
    case False
    with "1.prems" have "col = 7" by simp
    with "1.prems" show ?thesis by (subst colLoop.simps) simp
  next
    case True
    note col = this
    have upt: "[7 * w + col ..< 7 * w + 7] = (7 * w + col) # [7 * w + (col + 1) ..< 7 * w + 7]"
      using col by (simp add: upt_conv_Cons)
    show ?thesis
    proof (cases "w = 0 \<and> col < s")
      case True
      have "colLoop mk s D w col day parts = colLoop mk s D w (col + 1) day (parts @ [Padding])"
        using col True by (subst colLoop.simps) simp
      also have "\<dots> = (min (7 * w + 7 - s) D + 1,
          (parts @ [Padding]) @ map (cellAt mk s D) [7 * w + (col + 1) ..< 7 * w + 7])"
        using "1.prems" col True by (intro "1.IH"(1)) auto
      also have "Padding = cellAt mk s D (7 * w + col)"
        using True by (simp add: cellAt_def)
      finally show ?thesis unfolding upt by simp
    next
      case False
      note npad = this
      from npad "1.prems" have sp: "s \<le> 7 * w + col" by auto
      show ?thesis
      proof (cases "day \<le> D")
        case True
        with "1.prems" sp have lt: "7 * w + col < s + D" by auto
        with "1.prems" sp have day: "day = 7 * w + col - s + 1" by auto
        have "colLoop mk s D w col day parts = colLoop mk s D w (col + 1) (day + 1) (parts @ [mk day])"
          using col npad True by (subst colLoop.simps) auto
        also have "\<dots> = (min (7 * w + 7 - s) D + 1,
            (parts @ [mk day]) @ map (cellAt mk s D) [7 * w + (col + 1) ..< 7 * w + 7])"
          using "1.prems" col npad True sp lt day by (intro "1.IH"(2)) auto
        also have "mk day = cellAt mk s D (7 * w + col)"
          using sp lt day by (simp add: cellAt_def)
        finally show ?thesis unfolding upt by simp
      next
        case False
        with "1.prems" sp have ge: "s + D \<le> 7 * w + col" by auto
        with "1.prems" sp have day: "day = D + 1" by auto
        have "colLoop mk s D w col day parts = colLoop mk s D w (col + 1) day (parts @ [Padding])"
          using col npad False by (subst colLoop.simps) auto
        also have "\<dots> = (min (7 * w + 7 - s) D + 1,
            (parts @ [Padding]) @ map (cellAt mk s D) [7 * w + (col + 1) ..< 7 * w + 7])"
          using "1.prems" col npad False sp ge day by (intro "1.IH"(3)) auto
        also have "Padding = cellAt mk s D (7 * w + col)"
          using ge by (simp add: cellAt_def)
        finally show ?thesis unfolding upt by simp
      qed
    qed
  qed
qed

lemma gridLoop_spec:
  assumes "s \<le> 7" "1 \<le> D" "day = min (7 * w - s) D + 1" "day \<le> D \<or> w = 0"
  shows "gridLoop mk s D day w grid = grid @ map (weekCells mk s D) [w ..< (s + D + 6) div 7]"
  using assms
proof (induction mk s D day w grid rule: gridLoop.induct)
  case (1 mk s D day w grid)
  define day' where "day' = min (7 * w + 7 - s) D + 1"
  have c: "colLoop mk s D w 0 day [] = (day', weekCells mk s D w)"
    using colLoop_spec [of s 0 day w D mk "[]"] "1.prems" by (simp add: day'_def weekCells_def)
  have w: "w < (s + D + 6) div 7"
    using "1.prems" by auto
  show ?case
  proof (cases "D < day'")
    case True
    then have "s + D \<le> 7 * w + 7"
      using "1.prems"(1) by (simp add: day'_def min_def split: if_splits)
    then have "(s + D + 6) div 7 = w + 1"
      using w by arith
    then have "[w ..< (s + D + 6) div 7] = [w]"
      by simp
    moreover have "gridLoop mk s D day w grid = grid @ [weekCells mk s D w]"
      using "1.prems" c True by (subst gridLoop.simps) simp
    ultimately show ?thesis by simp
  next
    case False
    then have "7 * w + 7 < s + D"
      using "1.prems"(1) by (simp add: day'_def min_def split: if_splits)
    then have w': "w + 1 < (s + D + 6) div 7"
      by arith
    have "gridLoop mk s D day w grid = gridLoop mk s D day' (w + 1) (grid @ [weekCells mk s D w])"
      using "1.prems" c False by (subst gridLoop.simps) simp
    also have "\<dots> = (grid @ [weekCells mk s D w]) @ map (weekCells mk s D) [w + 1 ..< (s + D + 6) div 7]"
      using "1.prems" False c by (intro "1.IH" [where x = day' and y = "weekCells mk s D w"]) (auto simp: day'_def)
    also have "\<dots> = grid @ map (weekCells mk s D) [w ..< (s + D + 6) div 7]"
      using w by (simp add: upt_conv_Cons)
    finally show ?thesis .
  qed
qed

section \<open>The grid of a month: rows and cells\<close>

text \<open>
  The starting weekday and the day count that \<^verbatim>\<open>generateCalendarGrid\<close> computes for a
  month: the weekday of its first day, and the number of days of the month (29 for the
  February of a leap year).
\<close>

lemma ceil_div7: "\<lceil>real n / 7\<rceil> = int ((n + 6) div 7)"
proof -
  have "\<lceil>real n / 7\<rceil> = \<lceil>of_int (int n) / (of_int 7 :: real)\<rceil>" by simp
  also have "\<dots> = - (- int n div 7)" by (rule ceiling_divide_eq_div)
  also have "\<dots> = int ((n + 6) div 7)" by (simp add: zdiv_int)
  finally show ?thesis .
qed

definition startWeekdayOf :: "civil \<Rightarrow> nat" where
  "startWeekdayOf month = nat (weekday (goDate (Year month) (Mon month) 1))"

definition daysInMonthOf :: "civil \<Rightarrow> nat" where
  "daysInMonthOf month = nat (daysIn (normYear (Year month) (Mon month)) (normMonth (Mon month)))"

lemma weekday_range: "0 \<le> weekday t \<and> weekday t < 7"
  by (simp add: weekday_def)

lemma startWeekdayOf_le: "startWeekdayOf month \<le> 6"
  using weekday_range [of "goDate (Year month) (Mon month) 1"] unfolding startWeekdayOf_def by linarith

lemma daysInMonthOf_range: "28 \<le> daysInMonthOf month \<and> daysInMonthOf month \<le> 31"
  using daysIn_normMonth [of "normYear (Year month) (Mon month)" "Mon month"]
  unfolding daysInMonthOf_def by linarith

lemma goDate_first:
  "goDate y m 1 = \<lparr>Year = normYear y m, Mon = normMonth m, Day = 1\<rparr>"
  using daysIn_normMonth [of "normYear y m" m] by (intro goDate_valid) simp_all

lemma lastDay_Day:
  "Day (addDate (goDate y m 1) 0 1 (- 1)) = daysIn (normYear y m) (normMonth m)"
proof -
  have "addDate (goDate y m 1) 0 1 (- 1) = goDate (normYear y m) (normMonth m + 1) 0"
    by (simp add: goDate_first addDate_def)
  also have "\<dots> = \<lparr>Year = normYear y m, Mon = normMonth m, Day = daysIn (normYear y m) (normMonth m)\<rparr>"
    by (simp add: goDate_lastDay norm_idem)
  finally show ?thesis by simp
qed

lemma generateCalendarGrid_spec:
  "generateCalendarGrid month postCounts showCounts today =
     map (weekCells (dayStr month postCounts (formatDate today) showCounts)
            (startWeekdayOf month) (daysInMonthOf month))
       [0 ..< (startWeekdayOf month + daysInMonthOf month + 6) div 7]"
proof -
  have "gridLoop mk (startWeekdayOf month) (daysInMonthOf month) 1 0 [] =
      [] @ map (weekCells mk (startWeekdayOf month) (daysInMonthOf month))
        [0 ..< (startWeekdayOf month + daysInMonthOf month + 6) div 7]" for mk
    using startWeekdayOf_le [of month] daysInMonthOf_range [of month]
    by (intro gridLoop_spec) simp_all
  then show ?thesis
    by (simp add: generateCalendarGrid_def Let_def lastDay_Day startWeekdayOf_def daysInMonthOf_def)
qed

fun cellDay :: "cell \<Rightarrow> nat option" where
  "cellDay Padding = None"
| "cellDay (DayCell day c txt) = Some day"

lemma cellDay_dayStr: "cellDay (dayStr month postCounts currentDateKey showCounts day) = Some day"
  by (simp add: dayStr_def Let_def)

lemma grid_length:
  "length (generateCalendarGrid month postCounts showCounts today) =
     (startWeekdayOf month + daysInMonthOf month + 6) div 7"
  by (simp add: generateCalendarGrid_spec)

lemma grid_row_length:
  "row \<in> set (generateCalendarGrid month postCounts showCounts today) \<Longrightarrow> length row = 7"
  by (auto simp: generateCalendarGrid_spec weekCells_def)

lemma grid_nth:
  assumes "r < length (generateCalendarGrid month postCounts showCounts today)" "c < 7"
  shows "generateCalendarGrid month postCounts showCounts today ! r ! c =
    cellAt (dayStr month postCounts (formatDate today) showCounts)
      (startWeekdayOf month) (daysInMonthOf month) (7 * r + c)"
proof -
  have r: "r < (startWeekdayOf month + daysInMonthOf month + 6) div 7"
    using assms(1) by (simp add: grid_length)
  then show ?thesis
    using assms(2) by (simp add: generateCalendarGrid_spec weekCells_def)
qed

lemma grid_cellDay:
  assumes "r < length (generateCalendarGrid month postCounts showCounts today)" "c < 7"
  shows "cellDay (generateCalendarGrid month postCounts showCounts today ! r ! c) =
    (if startWeekdayOf month \<le> 7 * r + c \<and> 7 * r + c < startWeekdayOf month + daysInMonthOf month
     then Some (7 * r + c - startWeekdayOf month + 1) else None)"
  by (simp add: grid_nth [OF assms] cellAt_def cellDay_dayStr)

text \<open>
  Claim C2. For every month, the grid of \<^verbatim>\<open>generateCalendarGrid\<close> has exactly
  ceil((startWeekday + daysInMonth) / 7) rows, where startWeekday is the weekday of the
  first day of the month (0 = Sunday) and daysInMonth its leap-year-correct day count,
  and every row has exactly 7 cells.
\<close>

theorem generateCalendarGrid_row_count:
  "int (length (generateCalendarGrid month postCounts showCounts today)) =
     \<lceil>real (startWeekdayOf month + daysInMonthOf month) / 7\<rceil>
   \<and> (\<forall>row \<in> set (generateCalendarGrid month postCounts showCounts today). length row = 7)"
proof
  show "int (length (generateCalendarGrid month postCounts showCounts today)) =
      \<lceil>real (startWeekdayOf month + daysInMonthOf month) / 7\<rceil>"
    unfolding ceil_div7 grid_length ..
  show "\<forall>row \<in> set (generateCalendarGrid month postCounts showCounts today). length row = 7"
    using grid_row_length by blast
qed

lemma startWeekdayOf_eval:
  "startWeekdayOf \<lparr>Year = y, Mon = m, Day = d\<rparr> =
     nat ((daysBeforeYear (normYear y m) + daysBefore (normMonth m)
       + (if isLeap (normYear y m) \<and> 2 < normMonth m then 1 else 0) + 1) mod 7)"
  by (simp add: startWeekdayOf_def goDate_first weekday_def dayNumber_def norm_idem Let_def)

lemma feb2024:
  "startWeekdayOf \<lparr>Year = 2024, Mon = 2, Day = 1\<rparr> = 4"
  "daysInMonthOf \<lparr>Year = 2024, Mon = 2, Day = 1\<rparr> = 29"
  by (simp_all add: startWeekdayOf_eval daysInMonthOf_def normYear_def normMonth_def
      daysBeforeYear_def daysBefore_def isLeap_def daysIn_def)

theorem generateCalendarGrid_row_count_witness:
  "generateCalendarGrid \<lparr>Year = 2024, Mon = 2, Day = 1\<rparr> [] False \<lparr>Year = 2024, Mon = 2, Day = 10\<rparr> ! 4
     \<in> set (generateCalendarGrid \<lparr>Year = 2024, Mon = 2, Day = 1\<rparr> [] False \<lparr>Year = 2024, Mon = 2, Day = 10\<rparr>)
   \<and> length (generateCalendarGrid \<lparr>Year = 2024, Mon = 2, Day = 1\<rparr> [] False \<lparr>Year = 2024, Mon = 2, Day = 10\<rparr> ! 4) = 7
   \<and> length (generateCalendarGrid \<lparr>Year = 2024, Mon = 2, Day = 1\<rparr> [] False \<lparr>Year = 2024, Mon = 2, Day = 10\<rparr>) = 5"
proof -
  let ?grid = "generateCalendarGrid \<lparr>Year = 2024, Mon = 2, Day = 1\<rparr> [] False \<lparr>Year = 2024, Mon = 2, Day = 10\<rparr>"
  have len: "length ?grid = 5"
    by (simp add: grid_length feb2024)
  then have mem: "?grid ! 4 \<in> set ?grid"
    by simp
  have "\<forall>row \<in> set ?grid. length row = 7"
    using generateCalendarGrid_row_count [of "\<lparr>Year = 2024, Mon = 2, Day = 1\<rparr>" "[]" False "\<lparr>Year = 2024, Mon = 2, Day = 10\<rparr>"]
    by blast
  with mem have "length (?grid ! 4) = 7"
    by blast
  with mem len show ?thesis
    by blast
qed

lemma goDate_day:
  assumes "1 \<le> d" "d \<le> daysInMonthOf month"
  shows "goDate (Year month) (Mon month) (int d) =
    \<lparr>Year = normYear (Year month) (Mon month), Mon = normMonth (Mon month), Day = int d\<rparr>"
  using assms by (intro goDate_valid) (simp_all add: daysInMonthOf_def)

lemma weekday_day:
  assumes "1 \<le> d" "d \<le> daysInMonthOf month"
  shows "weekday (goDate (Year month) (Mon month) (int d)) = int ((startWeekdayOf month + d - 1) mod 7)"
proof -
  define n where "n = dayNumber (goDate (Year month) (Mon month) 1)"
  have s: "int (startWeekdayOf month) = (n + 1) mod 7"
    by (simp add: startWeekdayOf_def weekday_def n_def)
  have "dayNumber (goDate (Year month) (Mon month) (int d)) = n + (int d - 1)"
    by (simp add: n_def goDate_day [OF assms] goDate_first dayNumber_eq)
  then have "weekday (goDate (Year month) (Mon month) (int d)) = ((n + 1) + (int d - 1)) mod 7"
    by (simp add: weekday_def algebra_simps)
  also have "\<dots> = ((n + 1) mod 7 + (int d - 1)) mod 7"
    by (simp add: mod_add_left_eq)
  also have "\<dots> = (int (startWeekdayOf month) + (int d - 1)) mod 7"
    by (simp only: s)
  also have "int (startWeekdayOf month) + (int d - 1) = int (startWeekdayOf month + d - 1)"
    using assms(1) by simp
  also have "int (startWeekdayOf month + d - 1) mod 7 = int ((startWeekdayOf month + d - 1) mod 7)"
    by (simp add: zmod_int)
  finally show ?thesis .
qed

section \<open>Date keys are read back uniquely\<close>

text \<open>Reading a decimal number back: the inverse of \<open>digits\<close>.\<close>

definition readNat :: "string \<Rightarrow> nat" where
  "readNat s = foldl (\<lambda>a c. 10 * a + (of_char c - 48)) 0 s"

lemma digit_cases: "k < 10 \<Longrightarrow> k \<in> {0, 1, 2, 3, 4, 5, 6, 7, 8, 9::nat}"
  by auto

lemma digitChar_code: "n < 10 \<Longrightarrow> of_char (digitChar n) = 48 + n"
  by (drule digit_cases) (auto simp: digitChar_def)

lemma digitChar_not_minus: "n < 10 \<Longrightarrow> digitChar n \<noteq> CHR ''-''"
  by (drule digit_cases) (auto simp: digitChar_def)

lemma isDigit_digitChar: "n < 10 \<Longrightarrow> isDigit (digitChar n)"
  by (drule digit_cases) (auto simp: digitChar_def isDigit_def)

lemma digitVal_digitChar: "n < 10 \<Longrightarrow> digitVal (digitChar n) = int n"
  by (simp add: digitVal_def digitChar_code)

lemma readNat_snoc: "readNat (s @ [c]) = 10 * readNat s + (of_char c - 48)"
  by (simp add: readNat_def)

lemma readNat_digits: "readNat (digits n) = n"
proof (induction n rule: digits.induct)
  case (1 n)
  show ?case
  proof (cases "n < 10")
    case True
    then show ?thesis
      by (subst digits.simps) (simp add: readNat_def digitChar_code)
  next
    case False
    then have "readNat (digits n) = 10 * readNat (digits (n div 10)) + (of_char (digitChar (n mod 10)) - 48)"
      by (subst digits.simps) (simp add: readNat_snoc)
    also have "\<dots> = 10 * (n div 10) + n mod 10"
      using "1.IH" [OF False] by (simp add: digitChar_code)
    finally show ?thesis by simp
  qed
qed

lemma digits_not_Nil: "digits n \<noteq> []"
  by (subst digits.simps) simp

lemma digits_no_minus: "CHR ''-'' \<notin> set (digits n)"
proof (induction n rule: digits.induct)
  case (1 n)
  show ?case
  proof (cases "n < 10")
    case True
    then show ?thesis
      using digitChar_not_minus [of n] by (subst digits.simps) auto
  next
    case False
    then show ?thesis
      using "1.IH" [OF False] digitChar_not_minus [of "n mod 10"]
      by (subst digits.simps) auto
  qed
qed

lemma readNat_zeros: "readNat (replicate k (CHR ''0'') @ s) = readNat s"
  by (induction k) (simp_all add: readNat_def)

definition readInt :: "string \<Rightarrow> int" where
  "readInt s = (if hd s = CHR ''-'' then - int (readNat (tl s)) else int (readNat s))"

lemma readInt_appendInt: "readInt (appendInt x width) = x"
proof (cases "x < 0")
  case True
  then show ?thesis
    by (simp add: appendInt_def readInt_def Let_def readNat_zeros readNat_digits)
next
  case False
  let ?ds = "digits (nat \<bar>x\<bar>)"
  let ?s = "replicate (width - length ?ds) (CHR ''0'') @ ?ds"
  have "hd ?s \<in> set ?s"
    using digits_not_Nil [of "nat \<bar>x\<bar>"] by (intro hd_in_set) simp
  then have "hd ?s \<noteq> CHR ''-''"
    using digits_no_minus [of "nat \<bar>x\<bar>"] by auto
  with False show ?thesis
    by (simp add: appendInt_def readInt_def Let_def readNat_zeros readNat_digits)
qed

lemma appendInt_inj: "appendInt x width = appendInt y width \<Longrightarrow> x = y"
  by (metis readInt_appendInt)

lemma digits_small: "n < 10 \<Longrightarrow> digits n = [digitChar n]"
  by (subst digits.simps) simp

lemma digits_two: "10 \<le> n \<Longrightarrow> n < 100 \<Longrightarrow> digits n = [digitChar (n div 10), digitChar (n mod 10)]"
  by (subst digits.simps) (simp add: digits_small)

lemma appendInt2: "0 \<le> x \<Longrightarrow> x < 100 \<Longrightarrow>
    appendInt x 2 = [digitChar (nat x div 10), digitChar (nat x mod 10)]"
proof (cases "x < 10")
  case True
  assume "0 \<le> x"
  with True have "nat x div 10 = 0" "nat x mod 10 = nat x" by simp_all
  moreover have "digitChar 0 = CHR ''0''" by (simp add: digitChar_def)
  ultimately show ?thesis
    using True \<open>0 \<le> x\<close> by (simp add: appendInt_def Let_def digits_small)
next
  case False
  assume "0 \<le> x" "x < 100"
  with False show ?thesis
    by (simp add: appendInt_def Let_def digits_two)
qed

lemma length_appendInt2: "0 \<le> x \<Longrightarrow> x < 100 \<Longrightarrow> length (appendInt x 2) = 2"
  by (simp add: appendInt2)

lemma formatDate_inj:
  assumes "validDate a" "validDate b" "formatDate a = formatDate b"
  shows "a = b"
proof -
  have ra: "0 \<le> Mon a" "Mon a < 100" "0 \<le> Day a" "Day a < 100"
    using assms(1) daysIn_range [of "Mon a" "Year a"] by (auto simp: validDate_def)
  have rb: "0 \<le> Mon b" "Mon b < 100" "0 \<le> Day b" "Day b < 100"
    using assms(2) daysIn_range [of "Mon b" "Year b"] by (auto simp: validDate_def)
  let ?ta = "''-'' @ appendInt (Mon a) 2 @ ''-'' @ appendInt (Day a) 2"
  let ?tb = "''-'' @ appendInt (Mon b) 2 @ ''-'' @ appendInt (Day b) 2"
  have "length ?ta = length ?tb"
    using ra rb by (simp add: length_appendInt2)
  moreover have "appendInt (Year a) 4 @ ?ta = appendInt (Year b) 4 @ ?tb"
    using assms(3) by (simp add: formatDate_def)
  ultimately have y: "appendInt (Year a) 4 = appendInt (Year b) 4" and t: "?ta = ?tb"
    by (metis append_eq_append_conv)+
  from t have "appendInt (Mon a) 2 @ (''-'' @ appendInt (Day a) 2) = appendInt (Mon b) 2 @ (''-'' @ appendInt (Day b) 2)"
    by simp
  moreover have "length (appendInt (Mon a) 2) = length (appendInt (Mon b) 2)"
    using ra rb by (simp add: length_appendInt2)
  ultimately have m: "appendInt (Mon a) 2 = appendInt (Mon b) 2"
    and d: "''-'' @ appendInt (Day a) 2 = ''-'' @ appendInt (Day b) 2"
    by (metis append_eq_append_conv)+
  from y m d have "Year a = Year b" "Mon a = Mon b" "Day a = Day b"
    by (auto dest: appendInt_inj)
  then show ?thesis by simp
qed

section \<open>The presentation of a day cell\<close>

fun cellColor :: "cell \<Rightarrow> color option" where
  "cellColor Padding = None"
| "cellColor (DayCell day c txt) = Some c"

lemma cellColor_dayStr:
  "cellColor (dayStr month postCounts currentDateKey showCounts day) =
     Some (if formatDate (goDate (Year month) (Mon month) (int day)) = currentDateKey then BlackOnWhite
           else if 0 < countOf postCounts (formatDate (goDate (Year month) (Mon month) (int day)))
           then BrightGreen else White)"
  by (simp add: dayStr_def Let_def)

lemma validDate_goDate_day:
  assumes "1 \<le> d" "d \<le> daysInMonthOf month"
  shows "validDate (goDate (Year month) (Mon month) (int d))"
  using assms normMonth_range [of "Mon month"]
  by (simp add: goDate_day validDate_def daysInMonthOf_def)

lemma grid_day_cell:
  assumes "r < length (generateCalendarGrid month postCounts showCounts today)" "c < 7"
    and "cellDay (generateCalendarGrid month postCounts showCounts today ! r ! c) = Some d"
  shows "1 \<le> d \<and> d \<le> daysInMonthOf month
    \<and> generateCalendarGrid month postCounts showCounts today ! r ! c =
        dayStr month postCounts (formatDate today) showCounts d"
proof -
  let ?s = "startWeekdayOf month" and ?D = "daysInMonthOf month"
  from assms(3) have p: "?s \<le> 7 * r + c" "7 * r + c < ?s + ?D" "7 * r + c - ?s + 1 = d"
    unfolding grid_cellDay [OF assms(1,2)] by (simp_all split: if_splits)
  then have "1 \<le> d \<and> d \<le> ?D"
    by arith
  moreover have "generateCalendarGrid month postCounts showCounts today ! r ! c =
      dayStr month postCounts (formatDate today) showCounts d"
    using p by (simp add: grid_nth [OF assms(1,2)] cellAt_def)
  ultimately show ?thesis by blast
qed

text \<open>
  Claim C6. A cell whose date is the current date gets the "today" presentation (black on
  white) whatever its count, in both display modes; a cell of another date gets the
  activity presentation (bright green) if and only if its count is positive, and the
  neutral one (white) otherwise.
\<close>

theorem today_takes_precedence:
  assumes "validDate today"
    and "r < length (generateCalendarGrid month postCounts showCounts today)" "c < 7"
    and "cellDay (generateCalendarGrid month postCounts showCounts today ! r ! c) = Some d"
  shows "cellColor (generateCalendarGrid month postCounts showCounts today ! r ! c) =
    Some (if goDate (Year month) (Mon month) (int d) = today then BlackOnWhite
          else if 0 < countOf postCounts (formatDate (goDate (Year month) (Mon month) (int d)))
          then BrightGreen else White)"
proof -
  from grid_day_cell [OF assms(2-4)]
  have d: "1 \<le> d" "d \<le> daysInMonthOf month"
    and cell: "generateCalendarGrid month postCounts showCounts today ! r ! c =
      dayStr month postCounts (formatDate today) showCounts d"
    by simp_all
  have "formatDate (goDate (Year month) (Mon month) (int d)) = formatDate today
      \<longleftrightarrow> goDate (Year month) (Mon month) (int d) = today"
    using formatDate_inj [OF validDate_goDate_day [OF d] assms(1)] by blast
  then show ?thesis
    unfolding cell cellColor_dayStr by simp
qed

lemma key_2024_02_10: "formatDate \<lparr>Year = 2024, Mon = 2, Day = 10\<rparr> = ''2024-02-10''"
  by (simp add: formatDate_def appendInt_def Let_def digits.simps digitChar_def)

theorem today_takes_precedence_witness:
  "validDate \<lparr>Year = 2024, Mon = 2, Day = 10\<rparr>
   \<and> 1 < length (generateCalendarGrid \<lparr>Year = 2024, Mon = 2, Day = 1\<rparr> [(''2024-02-10'', 3)] True \<lparr>Year = 2024, Mon = 2, Day = 10\<rparr>)
   \<and> (6::nat) < 7
   \<and> cellDay (generateCalendarGrid \<lparr>Year = 2024, Mon = 2, Day = 1\<rparr> [(''2024-02-10'', 3)] True \<lparr>Year = 2024, Mon = 2, Day = 10\<rparr> ! 1 ! 6) = Some 10
   \<and> 0 < countOf [(''2024-02-10'', 3)] (formatDate \<lparr>Year = 2024, Mon = 2, Day = 10\<rparr>)
   \<and> cellColor (generateCalendarGrid \<lparr>Year = 2024, Mon = 2, Day = 1\<rparr> [(''2024-02-10'', 3)] True \<lparr>Year = 2024, Mon = 2, Day = 10\<rparr> ! 1 ! 6) = Some BlackOnWhite"
proof -
  let ?m = "\<lparr>Year = 2024, Mon = 2, Day = 1\<rparr>" and ?t = "\<lparr>Year = 2024, Mon = 2, Day = 10\<rparr>"
  let ?grid = "generateCalendarGrid ?m [(''2024-02-10'', 3)] True ?t"
  have v: "validDate ?t"
    by (simp add: validDate_def daysIn_def daysBefore_def isLeap_def)
  have r: "1 < length ?grid"
    by (simp add: grid_length feb2024)
  have c: "(6::nat) < 7"
    by simp
  have d: "cellDay (?grid ! 1 ! 6) = Some 10"
    unfolding grid_cellDay [OF r c] by (simp add: feb2024)
  have g: "goDate (Year ?m) (Mon ?m) (int 10) = ?t"
    by (simp add: goDate_valid normYear_def normMonth_def daysIn_def daysBefore_def isLeap_def)
  have k: "0 < countOf [(''2024-02-10'', 3)] (formatDate ?t)"
    by (simp add: key_2024_02_10 countOf_def)
  have "cellColor (?grid ! 1 ! 6) = Some BlackOnWhite"
    using today_takes_precedence [OF v r c d] unfolding g by simp
  with v r c d k show ?thesis
    by blast
qed

section \<open>The width of a grid line\<close>

lemma length_join:
  "length (join xs sep) = sum_list (map length xs) + (length xs - 1) * length sep"
  by (induction xs sep rule: join.induct) simp_all

lemma sum_list_const_length:
  "(\<forall>x \<in> set xs. length x = k) \<Longrightarrow> sum_list (map length xs) = k * length xs"
  by (induction xs) simp_all

lemma length_rowString:
  assumes "length row = 7" "\<forall>cell \<in> set row. length (cellText cell) = 2"
  shows "length (rowString row) = 20"
proof -
  have "sum_list (map length (map cellText row)) = 2 * length (map cellText row)"
    using assms(2) by (intro sum_list_const_length) simp
  then show ?thesis
    using assms(1) by (simp add: rowString_def length_join)
qed

lemma length_sprintf2d: "0 \<le> n \<Longrightarrow> n < 100 \<Longrightarrow> length (sprintf2d n) = 2"
proof (cases "n < 10")
  case True
  assume "0 \<le> n"
  with True show ?thesis
    by (simp add: sprintf2d_def Let_def digits_small)
next
  case False
  assume "0 \<le> n" "n < 100"
  with False show ?thesis
    by (simp add: sprintf2d_def Let_def digits_two)
qed

lemma upt7: "[0..<7] = [0, 1, 2, 3, 4, 5, 6]"
  by (simp add: upt_rec)

lemma feb2026:
  "startWeekdayOf \<lparr>Year = 2026, Mon = 2, Day = 1\<rparr> = 0"
  "daysInMonthOf \<lparr>Year = 2026, Mon = 2, Day = 1\<rparr> = 28"
  by (simp_all add: startWeekdayOf_eval daysInMonthOf_def normYear_def normMonth_def
      daysBeforeYear_def daysBefore_def isLeap_def daysIn_def)

lemma goDate_feb2026: "1 \<le> d \<Longrightarrow> d \<le> 28 \<Longrightarrow> goDate 2026 2 d = \<lparr>Year = 2026, Mon = 2, Day = d\<rparr>"
  by (subst goDate_valid) (simp_all add: normYear_def normMonth_def daysIn_def daysBefore_def isLeap_def)

lemma sprintf2d_123: "sprintf2d 123 = ''123''"
  by (simp add: sprintf2d_def Let_def digits.simps digitChar_def)

lemma row0_feb2026:
  "map cellText (generateCalendarGrid \<lparr>Year = 2026, Mon = 2, Day = 1\<rparr> [(''2026-02-05'', 123)] True
      \<lparr>Year = 2026, Mon = 10, Day = 31\<rparr> ! 0) =
    ['' 0'', '' 0'', '' 0'', '' 0'', ''123'', '' 0'', '' 0'']"
  by (simp add: generateCalendarGrid_spec feb2026 weekCells_def upt7 cellAt_def dayStr_def Let_def
      goDate_feb2026 formatDate_def appendInt_def digits.simps digitChar_def countOf_def sprintf2d_123)

lemma printCalendarRow_pieces:
  assumes "p \<in> set (printCalendarRow calendarGrids i)"
  shows "p = Plain ''  '' \<or> p = Plain (replicate 20 (CHR '' ''))
    \<or> (\<exists>grid \<in> set calendarGrids. i < length grid \<and> p = GridLine (grid ! i))"
proof -
  from assms obtain idx grid where g: "(idx, grid) \<in> set (enumerate 0 calendarGrids)"
    and p: "p \<in> set (separated idx (if i < length grid then GridLine (grid ! i)
        else Plain (replicate 20 (CHR '' ''))))"
    by (auto simp: printCalendarRow_def)
  from g have "grid \<in> set calendarGrids"
    by (auto simp: in_set_enumerate_eq)
  with p show ?thesis
    by (auto simp: separated_def split: if_splits)
qed

section \<open>Where a day is placed\<close>

text \<open>A day number as two characters, right-justified: what \<^verbatim>\<open>%2d\<close> prints for a day.\<close>

definition dayText :: "nat \<Rightarrow> string" where
  "dayText d = (if d < 10 then [CHR '' '', digitChar d] else [digitChar (d div 10), digitChar (d mod 10)])"

lemma sprintf2d_day: "d < 100 \<Longrightarrow> sprintf2d (int d) = dayText d"
  by (cases "d < 10") (simp_all add: sprintf2d_def dayText_def Let_def digits_small digits_two)

lemma digitChar_inj: "a < 10 \<Longrightarrow> b < 10 \<Longrightarrow> digitChar a = digitChar b \<Longrightarrow> a = b"
  by (metis digitChar_code add_left_cancel)

lemma digitChar_not_space:
  assumes "a < 10"
  shows "digitChar a \<noteq> CHR '' ''"
proof
  assume "digitChar a = CHR '' ''"
  then have "of_char (digitChar a) = (32::nat)"
    by simp
  moreover have "of_char (digitChar a) = 48 + a"
    using assms by (rule digitChar_code)
  ultimately show False
    by simp
qed

lemma dayText_inj:
  assumes "a < 100" "b < 100" "dayText a = dayText b"
  shows "a = b"
proof -
  have da: "a div 10 < 10" "a mod 10 < 10" and db: "b div 10 < 10" "b mod 10 < 10"
    using assms(1,2) by simp_all
  show ?thesis
  proof (cases "a < 10")
    case True
    note a = this
    show ?thesis
    proof (cases "b < 10")
      case True
      with a assms(3) show ?thesis
        by (auto simp: dayText_def dest: digitChar_inj)
    next
      case False
      with a assms(3) have "digitChar (b div 10) = CHR '' ''"
        by (simp add: dayText_def)
      with digitChar_not_space [OF db(1)] show ?thesis by simp
    qed
  next
    case False
    note a = this
    show ?thesis
    proof (cases "b < 10")
      case True
      with a assms(3) have "digitChar (a div 10) = CHR '' ''"
        by (simp add: dayText_def)
      with digitChar_not_space [OF da(1)] show ?thesis by simp
    next
      case False
      with a assms(3) have "digitChar (a div 10) = digitChar (b div 10)"
        "digitChar (a mod 10) = digitChar (b mod 10)"
        by (simp_all add: dayText_def)
      then have q: "a div 10 = b div 10" and m: "a mod 10 = b mod 10"
        using digitChar_inj [OF da(1) db(1)] digitChar_inj [OF da(2) db(2)] by blast+
      have "a = 10 * (a div 10) + a mod 10"
        by simp
      also have "\<dots> = 10 * (b div 10) + b mod 10"
        by (simp only: q m)
      also have "\<dots> = b"
        by simp
      finally show ?thesis .
    qed
  qed
qed

lemma dayText_not_blank: "d < 100 \<Longrightarrow> dayText d \<noteq> ''  ''"
proof (cases "d < 10")
  case True
  then show ?thesis
    using digitChar_not_space [of d] by (simp add: dayText_def)
next
  case False
  assume "d < 100"
  then have "d mod 10 < 10" by simp
  with False show ?thesis
    using digitChar_not_space [of "d mod 10"] by (simp add: dayText_def)
qed

lemma cellText_dayStr:
  "cellText (dayStr month postCounts currentDateKey showCounts day) =
     (if showCounts then
        (if 0 < countOf postCounts (formatDate (goDate (Year month) (Mon month) (int day)))
         then sprintf2d (countOf postCounts (formatDate (goDate (Year month) (Mon month) (int day))))
         else '' 0'')
      else sprintf2d (int day))"
  by (simp add: dayStr_def Let_def)

lemma grid_cell:
  assumes "r < length (generateCalendarGrid month postCounts showCounts today)" "c < 7"
  shows "generateCalendarGrid month postCounts showCounts today ! r ! c =
    (if startWeekdayOf month \<le> 7 * r + c \<and> 7 * r + c < startWeekdayOf month + daysInMonthOf month
     then dayStr month postCounts (formatDate today) showCounts (7 * r + c - startWeekdayOf month + 1)
     else Padding)"
  by (simp add: grid_nth [OF assms] cellAt_def)

text \<open>
  Claim C3. For every month and every day \<open>d\<close> from 1 to its day count, \<open>d\<close> is placed in
  exactly one cell of the grid: the cell in row \<open>(s + d - 1) div 7\<close> and column
  \<open>(s + d - 1) mod 7\<close>, where \<open>s\<close> is the starting weekday, is the one the code writes
  for day \<open>d\<close>. Its text is the day number right-justified in two characters when day
  numbers are shown (and the count of that date when counts are shown), its column is the
  weekday of \<open>d\<close> (Sunday is column 0), no other cell prints \<open>d\<close>, and every other cell
  is padding or the cell of another day. Every cell of the grid is given by its position,
  so the cells of row 0 before day 1 and the cells after the last day are two spaces.
\<close>

theorem generateCalendarGrid_day_placement:
  assumes "1 \<le> d" "d \<le> daysInMonthOf month"
  shows
    "(startWeekdayOf month + d - 1) div 7 < length (generateCalendarGrid month postCounts showCounts today)
     \<and> generateCalendarGrid month postCounts showCounts today
           ! ((startWeekdayOf month + d - 1) div 7) ! ((startWeekdayOf month + d - 1) mod 7)
         = dayStr month postCounts (formatDate today) showCounts d
     \<and> cellText (generateCalendarGrid month postCounts showCounts today
           ! ((startWeekdayOf month + d - 1) div 7) ! ((startWeekdayOf month + d - 1) mod 7))
         = (if showCounts then
              (if 0 < countOf postCounts (formatDate (goDate (Year month) (Mon month) (int d)))
               then sprintf2d (countOf postCounts (formatDate (goDate (Year month) (Mon month) (int d))))
               else '' 0'')
            else dayText d)
     \<and> int ((startWeekdayOf month + d - 1) mod 7) = weekday (goDate (Year month) (Mon month) (int d))
     \<and> (\<not> showCounts \<longrightarrow>
          (\<forall>r c. r < length (generateCalendarGrid month postCounts showCounts today) \<and> c < 7
             \<and> cellText (generateCalendarGrid month postCounts showCounts today ! r ! c) = dayText d
             \<longrightarrow> r = (startWeekdayOf month + d - 1) div 7 \<and> c = (startWeekdayOf month + d - 1) mod 7))
     \<and> (\<forall>r c. r < length (generateCalendarGrid month postCounts showCounts today) \<and> c < 7
           \<and> (r \<noteq> (startWeekdayOf month + d - 1) div 7 \<or> c \<noteq> (startWeekdayOf month + d - 1) mod 7)
           \<longrightarrow> generateCalendarGrid month postCounts showCounts today ! r ! c = Padding
             \<or> (\<exists>d'. d' \<noteq> d \<and> generateCalendarGrid month postCounts showCounts today ! r ! c
                    = dayStr month postCounts (formatDate today) showCounts d'))
     \<and> (\<forall>r c. r < length (generateCalendarGrid month postCounts showCounts today) \<and> c < 7
           \<longrightarrow> generateCalendarGrid month postCounts showCounts today ! r ! c =
             (if startWeekdayOf month \<le> 7 * r + c
                 \<and> 7 * r + c < startWeekdayOf month + daysInMonthOf month
              then dayStr month postCounts (formatDate today) showCounts
                     (7 * r + c - startWeekdayOf month + 1)
              else Padding))
     \<and> (\<forall>c < startWeekdayOf month.
           cellText (generateCalendarGrid month postCounts showCounts today ! 0 ! c) = ''  '')
     \<and> (\<forall>r c. r < length (generateCalendarGrid month postCounts showCounts today) \<and> c < 7
           \<and> startWeekdayOf month + daysInMonthOf month \<le> 7 * r + c
           \<longrightarrow> cellText (generateCalendarGrid month postCounts showCounts today ! r ! c) = ''  '')"
proof -
  let ?grid = "generateCalendarGrid month postCounts showCounts today"
  let ?s = "startWeekdayOf month" and ?D = "daysInMonthOf month"
  let ?mk = "dayStr month postCounts (formatDate today) showCounts"
  define p where "p = ?s + d - 1"
  have s: "?s \<le> 6" by (rule startWeekdayOf_le)
  have D: "?D \<le> 31" using daysInMonthOf_range [of month] by simp
  have len: "length ?grid = (?s + ?D + 6) div 7" by (rule grid_length)
  have r: "p div 7 < length ?grid"
    using assms unfolding len p_def by arith
  have c: "p mod 7 < 7" by simp
  have p: "7 * (p div 7) + p mod 7 = p" by simp
  have pd: "?s \<le> p" "p < ?s + ?D" "p - ?s + 1 = d"
    using assms unfolding p_def by arith+
  have cell: "?grid ! (p div 7) ! (p mod 7) = ?mk d"
    unfolding grid_cell [OF r c] p using pd by simp
  have d100: "d < 100" using assms(2) D by simp
  have shown: "cellText (?grid ! (p div 7) ! (p mod 7)) =
      (if showCounts then
         (if 0 < countOf postCounts (formatDate (goDate (Year month) (Mon month) (int d)))
          then sprintf2d (countOf postCounts (formatDate (goDate (Year month) (Mon month) (int d))))
          else '' 0'')
       else dayText d)"
    unfolding cell cellText_dayStr by (simp add: sprintf2d_day [OF d100])
  have col: "int (p mod 7) = weekday (goDate (Year month) (Mon month) (int d))"
    unfolding p_def using weekday_day [OF assms] by simp
  have pos: "r' = p div 7 \<and> c' = p mod 7" if "c' < 7" "7 * r' + c' = p" for r' c'
    using that by auto
  have uniq: "r' = p div 7 \<and> c' = p mod 7"
    if ns: "\<not> showCounts"
      and h: "r' < length ?grid \<and> c' < 7 \<and> cellText (?grid ! r' ! c') = dayText d" for r' c'
  proof -
    from h have r': "r' < length ?grid" and c': "c' < 7" and t: "cellText (?grid ! r' ! c') = dayText d"
      by simp_all
    show ?thesis
    proof (cases "?s \<le> 7 * r' + c' \<and> 7 * r' + c' < ?s + ?D")
      case False
      then have "cellText (?grid ! r' ! c') = ''  ''"
        by (auto simp: grid_cell [OF r' c'])
      with t dayText_not_blank [OF d100] show ?thesis by simp
    next
      case True
      define d' where "d' = 7 * r' + c' - ?s + 1"
      from True D have d'100: "d' < 100" unfolding d'_def by arith
      from True have "?grid ! r' ! c' = ?mk d'"
        by (simp add: grid_cell [OF r' c'] d'_def)
      then have "cellText (?grid ! r' ! c') = cellText (?mk d')"
        by (rule arg_cong)
      also have "\<dots> = dayText d'"
        unfolding cellText_dayStr using ns by (simp add: sprintf2d_day [OF d'100])
      finally have "cellText (?grid ! r' ! c') = dayText d'" .
      with t have "d' = d"
        using dayText_inj [OF d'100 d100] by simp
      with True assms have "7 * r' + c' = p"
        unfolding d'_def p_def by arith
      with c' show ?thesis by (rule pos)
    qed
  qed
  have other: "?grid ! r' ! c' = Padding \<or> (\<exists>d'. d' \<noteq> d \<and> ?grid ! r' ! c' = ?mk d')"
    if h: "r' < length ?grid \<and> c' < 7 \<and> (r' \<noteq> p div 7 \<or> c' \<noteq> p mod 7)" for r' c'
  proof -
    from h have r': "r' < length ?grid" and c': "c' < 7" by simp_all
    from h pos [OF c'] have ne: "7 * r' + c' \<noteq> p" by blast
    show ?thesis
    proof (cases "?s \<le> 7 * r' + c' \<and> 7 * r' + c' < ?s + ?D")
      case False
      then show ?thesis by (auto simp: grid_cell [OF r' c'])
    next
      case True
      with ne assms have "7 * r' + c' - ?s + 1 \<noteq> d"
        unfolding p_def by arith
      moreover from True have "?grid ! r' ! c' = ?mk (7 * r' + c' - ?s + 1)"
        by (simp add: grid_cell [OF r' c'])
      ultimately show ?thesis by blast
    qed
  qed
  have every: "?grid ! r' ! c' =
      (if ?s \<le> 7 * r' + c' \<and> 7 * r' + c' < ?s + ?D then ?mk (7 * r' + c' - ?s + 1) else Padding)"
    if "r' < length ?grid \<and> c' < 7" for r' c'
    using that by (simp add: grid_cell)
  have first: "cellText (?grid ! 0 ! c') = ''  ''" if "c' < ?s" for c'
  proof -
    have "0 < length ?grid" using r by (cases "?grid") simp_all
    moreover have "c' < 7" using that s by simp
    ultimately show ?thesis
      using that by (simp add: grid_cell)
  qed
  have last: "cellText (?grid ! r' ! c') = ''  ''"
    if "r' < length ?grid \<and> c' < 7 \<and> ?s + ?D \<le> 7 * r' + c'" for r' c'
    using that by (simp add: grid_cell)
  from r cell shown col uniq other every first last show ?thesis
    unfolding p_def by blast
qed

theorem generateCalendarGrid_day_placement_witness:
  "(1::nat) \<le> 5 \<and> 5 \<le> daysInMonthOf \<lparr>Year = 2024, Mon = 2, Day = 1\<rparr>
   \<and> 1 < length (generateCalendarGrid \<lparr>Year = 2024, Mon = 2, Day = 1\<rparr> [] False \<lparr>Year = 2024, Mon = 2, Day = 10\<rparr>)
   \<and> cellText (generateCalendarGrid \<lparr>Year = 2024, Mon = 2, Day = 1\<rparr> [] False \<lparr>Year = 2024, Mon = 2, Day = 10\<rparr> ! 1 ! 1) = '' 5''
   \<and> weekday (goDate 2024 2 5) = 1"
proof -
  have h1: "(1::nat) \<le> 5"
    by simp
  have h2: "5 \<le> daysInMonthOf \<lparr>Year = 2024, Mon = 2, Day = 1\<rparr>"
    by (simp add: feb2024)
  have p: "(startWeekdayOf \<lparr>Year = 2024, Mon = 2, Day = 1\<rparr> + 5 - 1) div 7 = 1"
    "(startWeekdayOf \<lparr>Year = 2024, Mon = 2, Day = 1\<rparr> + 5 - 1) mod 7 = 1"
    by (simp_all add: feb2024)
  have t: "dayText 5 = '' 5''"
    by (simp add: dayText_def digitChar_def)
  show ?thesis
    using h1 h2 generateCalendarGrid_day_placement [OF h1 h2, of "[]" False "\<lparr>Year = 2024, Mon = 2, Day = 10\<rparr>"]
    unfolding p t by auto
qed

section \<open>Grid lines wider than 20 characters\<close>

lemma length_sprintf2d_ge: "2 \<le> length (sprintf2d n)"
  by (simp add: sprintf2d_def Let_def)

lemma length_digits_wide: "100 \<le> n \<Longrightarrow> 3 \<le> length (digits n)"
proof -
  assume n: "100 \<le> n"
  then have a: "digits n = digits (n div 10) @ [digitChar (n mod 10)]"
    by (subst digits.simps) simp
  from n have "10 \<le> n div 10" by simp
  then have b: "digits (n div 10) = digits (n div 10 div 10) @ [digitChar (n div 10 mod 10)]"
    by (subst digits.simps) simp
  have "1 \<le> length (digits (n div 10 div 10))"
    using digits_not_Nil [of "n div 10 div 10"] by (cases "digits (n div 10 div 10)") simp_all
  then show ?thesis
    unfolding a b by simp
qed

lemma length_sprintf2d_wide: "100 \<le> n \<Longrightarrow> 2 < length (sprintf2d n)"
proof -
  assume "100 \<le> n"
  then have "3 \<le> length (digits (nat \<bar>n\<bar>))"
    by (intro length_digits_wide) simp
  then show ?thesis
    by (simp add: sprintf2d_def Let_def)
qed

lemma length_cellText_dayStr_ge:
  "2 \<le> length (cellText (dayStr month postCounts currentDateKey showCounts day))"
  by (simp add: cellText_dayStr length_sprintf2d_ge)

lemma length_cellText_cellAt_ge:
  "2 \<le> length (cellText (cellAt (dayStr month postCounts currentDateKey showCounts) s D p))"
  by (simp add: cellAt_def length_cellText_dayStr_ge)

lemma sum_list_lower:
  "(\<forall>x \<in> set xs. k \<le> f x) \<Longrightarrow> k * length xs \<le> sum_list (map f xs)"
  for f :: "'a \<Rightarrow> nat"
  by (induction xs) auto

lemma sum_list_strict_lower:
  fixes f :: "'a \<Rightarrow> nat"
  assumes "\<forall>x \<in> set xs. k \<le> f x" "i < length xs" "k < f (xs ! i)"
  shows "k * length xs < sum_list (map f xs)"
  using assms
proof (induction xs arbitrary: i)
  case Nil
  then show ?case by simp
next
  case (Cons x xs)
  show ?case
  proof (cases i)
    case 0
    with Cons.prems have "k < f x" by simp
    moreover have "k * length xs \<le> sum_list (map f xs)"
      using Cons.prems(1) by (intro sum_list_lower) simp
    ultimately show ?thesis by simp
  next
    case (Suc j)
    with Cons.prems have "k * length xs < sum_list (map f xs)"
      by (intro Cons.IH [of j]) simp_all
    moreover have "k \<le> f x"
      using Cons.prems(1) by simp
    ultimately show ?thesis by simp
  qed
qed

lemma length_rowString_wide:
  assumes "length row = 7" "\<forall>cell \<in> set row. 2 \<le> length (cellText cell)"
    and "c < 7" "2 < length (cellText (row ! c))"
  shows "20 < length (rowString row)"
proof -
  have "2 * length row < sum_list (map (\<lambda>cell. length (cellText cell)) row)"
    using assms by (intro sum_list_strict_lower [where i = c]) simp_all
  then have "14 < sum_list (map length (map cellText row))"
    using assms(1) by (simp add: comp_def)
  then show ?thesis
    using assms(1) by (simp add: rowString_def length_join)
qed

text \<open>The count that the grid of a month shows for its day \<open>d\<close>.\<close>

definition countOnDay :: "civil \<Rightarrow> postCounts \<Rightarrow> nat \<Rightarrow> int" where
  "countOnDay month postCounts d =
     countOf postCounts (formatDate (goDate (Year month) (Mon month) (int d)))"

lemma length_cellText_dayStr_iff:
  assumes "day < 100"
  shows "length (cellText (dayStr month postCounts currentDateKey showCounts day)) = 2
    \<longleftrightarrow> \<not> (showCounts \<and> 100 \<le> countOnDay month postCounts day)"
proof (cases "showCounts \<and> 100 \<le> countOnDay month postCounts day")
  case True
  then have "2 < length (sprintf2d (countOnDay month postCounts day))"
    by (intro length_sprintf2d_wide) simp
  with True show ?thesis
    by (simp add: cellText_dayStr countOnDay_def)
next
  case False
  show ?thesis
  proof (cases showCounts)
    case True
    with False have "countOnDay month postCounts day < 100" by simp
    with True show ?thesis
      by (simp add: cellText_dayStr countOnDay_def length_sprintf2d)
  next
    case False
    with assms show ?thesis
      by (simp add: cellText_dayStr length_sprintf2d)
  qed
qed

text \<open>
  The lines of a month's grid are all 20 characters wide exactly when day numbers are
  shown, or counts are shown and no day of the month has a count of 100 or more.
\<close>

lemma grid_line_width_iff:
  "(\<forall>row \<in> set (generateCalendarGrid month postCounts showCounts today). length (rowString row) = 20)
   \<longleftrightarrow> (showCounts \<longrightarrow>
         (\<forall>d. 1 \<le> d \<and> d \<le> daysInMonthOf month \<longrightarrow> countOnDay month postCounts d < 100))"
proof
  let ?grid = "generateCalendarGrid month postCounts showCounts today"
  let ?s = "startWeekdayOf month" and ?D = "daysInMonthOf month"
  let ?mk = "dayStr month postCounts (formatDate today) showCounts"
  have D: "?D \<le> 31" using daysInMonthOf_range [of month] by simp
  {
    assume small: "showCounts \<longrightarrow>
      (\<forall>d. 1 \<le> d \<and> d \<le> ?D \<longrightarrow> countOnDay month postCounts d < 100)"
    show "\<forall>row \<in> set ?grid. length (rowString row) = 20"
    proof
      fix row
      assume row: "row \<in> set ?grid"
      then obtain r where r: "row = weekCells ?mk ?s ?D r"
        by (auto simp: generateCalendarGrid_spec)
      have "length (cellText (cellAt ?mk ?s ?D p)) = 2" for p
      proof (cases "?s \<le> p \<and> p < ?s + ?D")
        case False
        then show ?thesis by (auto simp: cellAt_def)
      next
        case True
        then have d: "1 \<le> p - ?s + 1" "p - ?s + 1 \<le> ?D" by arith+
        with D have "p - ?s + 1 < 100" by simp
        moreover have "\<not> (showCounts \<and> 100 \<le> countOnDay month postCounts (p - ?s + 1))"
          using small d by fastforce
        ultimately have "length (cellText (?mk (p - ?s + 1))) = 2"
          by (simp add: length_cellText_dayStr_iff)
        with True show ?thesis by (simp add: cellAt_def)
      qed
      then have "\<forall>cell \<in> set row. length (cellText cell) = 2"
        unfolding r by (auto simp: weekCells_def)
      moreover have "length row = 7"
        using row by (rule grid_row_length)
      ultimately show "length (rowString row) = 20"
        by (intro length_rowString)
    qed
  }
  {
    assume all: "\<forall>row \<in> set ?grid. length (rowString row) = 20"
    show "showCounts \<longrightarrow>
      (\<forall>d. 1 \<le> d \<and> d \<le> ?D \<longrightarrow> countOnDay month postCounts d < 100)"
    proof (intro impI allI)
      fix d
      assume sc: showCounts and d: "1 \<le> d \<and> d \<le> ?D"
      show "countOnDay month postCounts d < 100"
      proof (rule ccontr)
        assume "\<not> countOnDay month postCounts d < 100"
        then have big: "100 \<le> countOnDay month postCounts d" by simp
        define p where "p = ?s + d - 1"
        have r: "p div 7 < length ?grid"
          using d unfolding grid_length p_def by arith
        have c: "p mod 7 < 7" by simp
        have p: "7 * (p div 7) + p mod 7 = p" by simp
        have pd: "?s \<le> p" "p < ?s + ?D" "p - ?s + 1 = d"
          using d unfolding p_def by arith+
        have cell: "?grid ! (p div 7) ! (p mod 7) = ?mk d"
          unfolding grid_cell [OF r c] p using pd by simp
        have d100: "d < 100" using d D by simp
        have "length (cellText (?mk d)) \<noteq> 2"
          using sc big by (simp add: length_cellText_dayStr_iff [OF d100])
        with length_cellText_dayStr_ge [of month postCounts "formatDate today" showCounts d]
        have wide: "2 < length (cellText (?grid ! (p div 7) ! (p mod 7)))"
          unfolding cell by simp
        have mem: "?grid ! (p div 7) \<in> set ?grid"
          using r by simp
        then have len: "length (?grid ! (p div 7)) = 7"
          by (rule grid_row_length)
        from mem obtain r' where "?grid ! (p div 7) = weekCells ?mk ?s ?D r'"
          by (auto simp: generateCalendarGrid_spec)
        then have "\<forall>cell \<in> set (?grid ! (p div 7)). 2 \<le> length (cellText cell)"
          by (auto simp: weekCells_def length_cellText_cellAt_ge)
        with len c wide have "20 < length (rowString (?grid ! (p div 7)))"
          by (intro length_rowString_wide [where c = "p mod 7"])
        with all mem show False by fastforce
      qed
    qed
  }
qed

lemma row1_feb2026:
  "map cellText (generateCalendarGrid \<lparr>Year = 2026, Mon = 2, Day = 1\<rparr> [(''2026-02-05'', 123)] True
      \<lparr>Year = 2026, Mon = 10, Day = 31\<rparr> ! 1) =
    ['' 0'', '' 0'', '' 0'', '' 0'', '' 0'', '' 0'', '' 0'']"
  by (simp add: generateCalendarGrid_spec feb2026 weekCells_def upt_rec [of 7] upt_rec [of 8]
      upt_rec [of 9] upt_rec [of 10] upt_rec [of 11] upt_rec [of 12] upt_rec [of 13] upt_rec [of 14]
      cellAt_def dayStr_def Let_def
      goDate_feb2026 formatDate_def appendInt_def digits.simps digitChar_def countOf_def)

text \<open>
  Claim C9. Every grid line of \<^verbatim>\<open>generateCalendarGrid\<close> should have exactly 20 visible
  characters, as the blank filler of \<^verbatim>\<open>renderCalendarGrid\<close> and the comment on
  \<^verbatim>\<open>calendarWidth\<close> ("Each calendar is 20 chars wide") have it. The code does not keep
  to that: with counts shown and 123 posts on 2026-02-05, the first line of February 2026
  is 21 characters wide, above a second line of 20.
\<close>

theorem grid_line_width_failing_input:
  "rowString (generateCalendarGrid \<lparr>Year = 2026, Mon = 2, Day = 1\<rparr> [(''2026-02-05'', 123)] True
      \<lparr>Year = 2026, Mon = 10, Day = 31\<rparr> ! 0) = '' 0  0  0  0 123  0  0''
   \<and> length (rowString (generateCalendarGrid \<lparr>Year = 2026, Mon = 2, Day = 1\<rparr> [(''2026-02-05'', 123)] True
      \<lparr>Year = 2026, Mon = 10, Day = 31\<rparr> ! 0)) = 21
   \<and> rowString (generateCalendarGrid \<lparr>Year = 2026, Mon = 2, Day = 1\<rparr> [(''2026-02-05'', 123)] True
      \<lparr>Year = 2026, Mon = 10, Day = 31\<rparr> ! 1) = '' 0  0  0  0  0  0  0''
   \<and> length (rowString (generateCalendarGrid \<lparr>Year = 2026, Mon = 2, Day = 1\<rparr> [(''2026-02-05'', 123)] True
      \<lparr>Year = 2026, Mon = 10, Day = 31\<rparr> ! 1)) = 20
   \<and> length (generateCalendarGrid \<lparr>Year = 2026, Mon = 2, Day = 1\<rparr> [(''2026-02-05'', 123)] True
      \<lparr>Year = 2026, Mon = 10, Day = 31\<rparr>) = 4"
  unfolding rowString_def row0_feb2026 row1_feb2026 by (simp add: grid_length feb2026)

text \<open>
  Apart from that, the pieces of a printed calendar row are the two-space separator, the
  20 spaces under a shorter grid, and lines of the grids; they are all 20 wide when no
  count shown is 100 or more.
\<close>

lemma printCalendarRow_width:
  assumes "showCounts \<longrightarrow>
    (\<forall>m \<in> set ms. \<forall>d. 1 \<le> d \<and> d \<le> daysInMonthOf m \<longrightarrow> countOnDay m postCounts d < 100)"
    and "p \<in> set (printCalendarRow (map (\<lambda>m. generateCalendarGrid m postCounts showCounts today) ms) i)"
  shows "p = Plain ''  '' \<or> length (pieceText p) = 20"
proof -
  have "length (rowString row) = 20"
    if "m \<in> set ms" "row \<in> set (generateCalendarGrid m postCounts showCounts today)" for m row
    using that assms(1) grid_line_width_iff [of m postCounts showCounts today] by blast
  with printCalendarRow_pieces [OF assms(2)] show ?thesis
    by (auto intro: nth_mem)
qed

section \<open>Calendars per display row\<close>

lemma calendarsPerRow_pos: "0 < calendarsPerRow w"
  by (simp add: calendarsPerRow_def Let_def)

lemma rowMonths_printDisplayRow: "rowMonths (printDisplayRow ms postCounts showCounts today) = ms"
  by (simp add: printDisplayRow_def Let_def)

lemma ceil_div_step:
  fixes n c :: nat
  assumes "0 < c" "0 < n"
  shows "(n + c - 1) div c = Suc ((n - c + c - 1) div c)"
proof (cases "c \<le> n")
  case True
  then have "n + c - 1 = (n - c + c - 1) + c"
    using assms by simp
  then have "(n + c - 1) div c = ((n - c + c - 1) + c) div c"
    by simp
  also have "\<dots> = Suc ((n - c + c - 1) div c)"
    using assms(1) by (simp only: div_add_self2)
  finally show ?thesis .
next
  case False
  then have "(n - c + c - 1) div c = 0"
    using assms(1) by simp
  moreover have "(n + c - 1) div c = 1"
    using assms False by (intro div_nat_eqI) simp_all
  ultimately show ?thesis by simp
qed

lemma displayLoop_step:
  assumes "i < length months"
  shows "displayLoop w months postCounts showCounts today i =
    printDisplayRow (take (calendarsPerRow w) (drop i months)) postCounts showCounts today
      # displayLoop w months postCounts showCounts today (i + calendarsPerRow w)"
proof -
  have "take ((if length months < i + calendarsPerRow w then length months
        else i + calendarsPerRow w) - i) (drop i months)
      = take (calendarsPerRow w) (drop i months)"
    by simp
  then show ?thesis
    using assms by (subst displayLoop.simps) (simp add: Let_def)
qed

lemma displayLoop_done:
  "\<not> i < length months \<Longrightarrow> displayLoop w months postCounts showCounts today i = []"
  by (subst displayLoop.simps) simp

lemma displayLoop_eq:
  "displayLoop w months postCounts showCounts today i =
     map (\<lambda>k. printDisplayRow (take (calendarsPerRow w) (drop (i + k * calendarsPerRow w) months))
            postCounts showCounts today)
       [0 ..< (length months - i + calendarsPerRow w - 1) div calendarsPerRow w]"
proof (induction w months postCounts showCounts today i rule: displayLoop.induct)
  case (1 w months postCounts showCounts today i)
  let ?c = "calendarsPerRow w"
  let ?f = "\<lambda>ms. printDisplayRow ms postCounts showCounts today"
  have c: "0 < ?c" by (rule calendarsPerRow_pos)
  show ?case
  proof (cases "i < length months")
    case False
    then have "(length months - i + ?c - 1) div ?c = 0"
      using c by simp
    with False show ?thesis
      by (simp add: displayLoop_done)
  next
    case True
    then have n: "(length months - i + ?c - 1) div ?c =
        Suc ((length months - (i + ?c) + ?c - 1) div ?c)"
      using ceil_div_step [OF c, of "length months - i"] by simp
    have ih: "displayLoop w months postCounts showCounts today (i + ?c) =
        map (\<lambda>k. ?f (take ?c (drop (i + ?c + k * ?c) months)))
          [0 ..< (length months - (i + ?c) + ?c - 1) div ?c]"
      using "1.IH" [OF True refl refl] by simp
    have "map (\<lambda>k. ?f (take ?c (drop (i + k * ?c) months)))
          [0 ..< Suc ((length months - (i + ?c) + ?c - 1) div ?c)]
        = ?f (take ?c (drop i months))
          # map (\<lambda>k. ?f (take ?c (drop (i + ?c + k * ?c) months)))
              [0 ..< (length months - (i + ?c) + ?c - 1) div ?c]"
      by (simp only: upt_conv_Cons [OF zero_less_Suc] list.map map_Suc_upt [symmetric] map_map)
        (simp add: comp_def add.assoc)
    then show ?thesis
      unfolding displayLoop_step [OF True] n by (simp add: ih)
  qed
qed

lemma displayLoop_concat:
  "concat (map rowMonths (displayLoop w months postCounts showCounts today i)) = drop i months"
proof (induction w months postCounts showCounts today i rule: displayLoop.induct)
  case (1 w months postCounts showCounts today i)
  show ?case
  proof (cases "i < length months")
    case False
    then show ?thesis by (simp add: displayLoop_done)
  next
    case True
    have "concat (map rowMonths (displayLoop w months postCounts showCounts today (i + calendarsPerRow w)))
        = drop (i + calendarsPerRow w) months"
      using "1.IH" [OF True refl refl] by simp
    then have "concat (map rowMonths (displayLoop w months postCounts showCounts today i)) =
        take (calendarsPerRow w) (drop i months) @ drop (i + calendarsPerRow w) months"
      unfolding displayLoop_step [OF True] by (simp add: rowMonths_printDisplayRow)
    also have "drop (i + calendarsPerRow w) months = drop (calendarsPerRow w) (drop i months)"
      by (simp add: add.commute)
    finally show ?thesis
      by (simp only: append_take_drop_id)
  qed
qed

lemma map_singletons:
  "map (\<lambda>k. f (take 1 (drop k ms))) [0 ..< length ms] = map (\<lambda>m. f [m]) ms"
proof -
  have "map (\<lambda>k. f (take 1 (drop k ms))) [0 ..< length ms] = map (\<lambda>k. f [ms ! k]) [0 ..< length ms]"
    by (rule map_cong) (simp_all add: take_Suc_conv_app_nth)
  also have "\<dots> = map (\<lambda>m. f [m]) (map ((!) ms) [0 ..< length ms])"
    by (simp add: comp_def)
  finally show ?thesis
    by (simp only: map_nth)
qed

lemma monthHeaders_single:
  "monthHeaders (printDisplayRow [m] postCounts showCounts today) =
     [Colored White (padRight20 (formatHeader m))]"
  by (simp add: printDisplayRow_def Let_def printMonthHeaders_def separated_def)

text \<open>
  Claim C7. For every terminal width \<open>w\<close>, also below 22, the number of calendars in a display
  row is \<open>max 1 (w div 22)\<close>; the width is the terminal's column count, or 80 when the
  terminal cannot be asked, which gives 3 calendars in a row; a width below 22 gives one. The
  loop over the display rows is total and, with \<open>K\<close> calendars in a row, prints
  \<open>\<lceil>n / K\<rceil>\<close> display rows for \<open>n\<close> months, the \<open>k\<close>-th one for the months
  \<open>k * K, \<dots>, k * K + K - 1\<close> (as many as there are), so every month is shown once, in
  order. A terminal of 30 columns gives one calendar in a row: every display row shows one
  month, under one month header.
\<close>

theorem calendarsPerRow_is_max:
  "calendarsPerRow w = max 1 (w div 22)
   \<and> calendarsPerRow (w mod 22) = 1
   \<and> getTerminalWidth None = 80
   \<and> calendarsPerRow (getTerminalWidth None) = 3
   \<and> getTerminalWidth (Some ws) = unat (Col ws)
   \<and> calendarsPerRow 30 = 1
   \<and> renderCalendarGrid months postCounts showCounts today tty =
       map (\<lambda>k. printDisplayRow
              (take (max 1 (getTerminalWidth tty div 22))
                 (drop (k * max 1 (getTerminalWidth tty div 22)) months))
              postCounts showCounts today)
         [0 ..< (length months + max 1 (getTerminalWidth tty div 22) - 1)
                  div max 1 (getTerminalWidth tty div 22)]
   \<and> concat (map rowMonths (renderCalendarGrid months postCounts showCounts today tty)) = months
   \<and> renderCalendarGrid months postCounts showCounts today
         (Some \<lparr>Row = r, Col = 30, Xpixel = x, Ypixel = y\<rparr>)
       = map (\<lambda>m. printDisplayRow [m] postCounts showCounts today) months
   \<and> map rowMonths (renderCalendarGrid months postCounts showCounts today
         (Some \<lparr>Row = r, Col = 30, Xpixel = x, Ypixel = y\<rparr>))
       = map (\<lambda>m. [m]) months
   \<and> map monthHeaders (renderCalendarGrid months postCounts showCounts today
         (Some \<lparr>Row = r, Col = 30, Xpixel = x, Ypixel = y\<rparr>))
       = map (\<lambda>m. [Colored White (padRight20 (formatHeader m))]) months"
proof -
  have k: "calendarsPerRow v = max 1 (v div 22)" for v
    by (simp add: calendarsPerRow_def calendarWidth_def Let_def max_def)
  have small: "calendarsPerRow (w mod 22) = 1"
    unfolding k by simp
  have w30: "getTerminalWidth (Some \<lparr>Row = r, Col = 30, Xpixel = x, Ypixel = y\<rparr>) = 30"
    by (simp add: getTerminalWidth_def)
  have c30: "calendarsPerRow 30 = 1"
    unfolding k by simp
  have rows: "renderCalendarGrid months postCounts showCounts today tty =
       map (\<lambda>k. printDisplayRow
              (take (max 1 (getTerminalWidth tty div 22))
                 (drop (k * max 1 (getTerminalWidth tty div 22)) months))
              postCounts showCounts today)
         [0 ..< (length months + max 1 (getTerminalWidth tty div 22) - 1)
                  div max 1 (getTerminalWidth tty div 22)]"
    unfolding renderCalendarGrid_def displayLoop_eq k by simp
  have single: "renderCalendarGrid months postCounts showCounts today
         (Some \<lparr>Row = r, Col = 30, Xpixel = x, Ypixel = y\<rparr>)
       = map (\<lambda>m. printDisplayRow [m] postCounts showCounts today) months"
    unfolding renderCalendarGrid_def displayLoop_eq w30 c30
    using map_singletons [of "\<lambda>ms. printDisplayRow ms postCounts showCounts today" months]
    by simp
  have all: "concat (map rowMonths (renderCalendarGrid months postCounts showCounts today tty)) = months"
    unfolding renderCalendarGrid_def displayLoop_concat by simp
  show ?thesis
    unfolding single
    using k [of w] small c30 rows all
    by (simp add: getTerminalWidth_def k comp_def rowMonths_printDisplayRow monthHeaders_single)
qed

section \<open>The month flag without a value\<close>

lemma pad_digits_step:
  assumes "0 < w"
  shows "replicate (Suc w - length (digits n)) (CHR ''0'') @ digits n =
    (replicate (w - length (digits (n div 10))) (CHR ''0'') @ digits (n div 10)) @ [digitChar (n mod 10)]"
proof (cases "n < 10")
  case True
  obtain v where w: "w = Suc v"
    using assms by (cases w) simp_all
  have "digits (0::nat) = [CHR ''0'']"
    by (simp add: digits_small digitChar_def)
  with True show ?thesis
    by (simp add: digits_small w replicate_append_same)
next
  case False
  then have "digits n = digits (n div 10) @ [digitChar (n mod 10)]"
    by (subst digits.simps) simp
  then show ?thesis
    by simp
qed

lemma decimal4:
  fixes n :: nat
  shows "n = 1000 * (n div 10 div 10 div 10) + 100 * (n div 10 div 10 mod 10)
    + 10 * (n div 10 mod 10) + n mod 10"
proof -
  define a where "a = n div 10"
  define b where "b = a div 10"
  define c where "c = b div 10"
  define r0 where "r0 = n mod 10"
  define r1 where "r1 = a mod 10"
  define r2 where "r2 = b mod 10"
  have "n = 10 * a + r0" "a = 10 * b + r1" "b = 10 * c + r2"
    by (simp_all add: a_def b_def c_def r0_def r1_def r2_def)
  then have "n = 1000 * c + 100 * r2 + 10 * r1 + r0"
    by linarith
  then show ?thesis
    by (simp only: a_def b_def c_def r0_def r1_def r2_def)
qed

lemma appendInt4:
  assumes "0 \<le> x" "x < 10000"
  shows "appendInt x 4 = [digitChar (nat x div 10 div 10 div 10), digitChar (nat x div 10 div 10 mod 10),
    digitChar (nat x div 10 mod 10), digitChar (nat x mod 10)]"
proof -
  define n where "n = nat x"
  define a where "a = n div 10"
  define b where "b = a div 10"
  define c where "c = b div 10"
  have "n < 10000"
    using assms by (simp add: n_def)
  then have "a < 1000" unfolding a_def by simp
  then have "b < 100" unfolding b_def by simp
  then have c: "c < 10" unfolding c_def by simp
  have "replicate (Suc 3 - length (digits n)) (CHR ''0'') @ digits n =
      (replicate (Suc 2 - length (digits a)) (CHR ''0'') @ digits a) @ [digitChar (n mod 10)]"
    unfolding a_def using pad_digits_step [of 3 n] by (simp add: numeral_3_eq_3)
  also have "replicate (Suc 2 - length (digits a)) (CHR ''0'') @ digits a =
      (replicate (Suc 1 - length (digits b)) (CHR ''0'') @ digits b) @ [digitChar (a mod 10)]"
    unfolding b_def using pad_digits_step [of 2 a] by (simp add: numeral_2_eq_2)
  also have "replicate (Suc 1 - length (digits b)) (CHR ''0'') @ digits b =
      (replicate (1 - length (digits c)) (CHR ''0'') @ digits c) @ [digitChar (b mod 10)]"
    unfolding c_def using pad_digits_step [of 1 b] by simp
  also have "replicate (1 - length (digits c)) (CHR ''0'') @ digits c = [digitChar c]"
    using c by (simp add: digits_small)
  finally have "replicate (4 - length (digits n)) (CHR ''0'') @ digits n =
      [digitChar c, digitChar (b mod 10), digitChar (a mod 10), digitChar (n mod 10)]"
    by simp
  moreover have "appendInt x 4 = replicate (4 - length (digits n)) (CHR ''0'') @ digits n"
    using assms(1) by (simp add: appendInt_def Let_def n_def)
  ultimately show ?thesis
    by (simp only: a_def b_def c_def n_def)
qed

lemma parseMonth_formatMonth:
  assumes "0 \<le> Year t" "Year t < 10000" "1 \<le> Mon t" "Mon t \<le> 12"
  shows "parseMonth (formatMonth t) = Some \<lparr>Year = Year t, Mon = Mon t, Day = 1\<rparr>"
proof -
  define n where "n = nat (Year t)"
  define m where "m = nat (Mon t)"
  define y3 y2 y1 y0 where "y3 = n div 10 div 10 div 10" and "y2 = n div 10 div 10 mod 10"
    and "y1 = n div 10 mod 10" and "y0 = n mod 10"
  define m1 m0 where "m1 = m div 10" and "m0 = m mod 10"
  have "n < 10000"
    using assms by (simp add: n_def)
  then have "n div 10 < 1000" by simp
  then have "n div 10 div 10 < 100" by simp
  then have "y3 < 10" unfolding y3_def by simp
  moreover have "y2 < 10" "y1 < 10" "y0 < 10" "m0 < 10"
    by (simp_all add: y2_def y1_def y0_def m0_def)
  moreover have "m1 < 10"
    using assms by (simp add: m1_def m_def)
  ultimately have d: "y3 < 10" "y2 < 10" "y1 < 10" "y0 < 10" "m1 < 10" "m0 < 10"
    by simp_all
  have n: "n = 1000 * y3 + 100 * y2 + 10 * y1 + y0"
    unfolding y3_def y2_def y1_def y0_def by (rule decimal4)
  have "m = 10 * m1 + m0"
    by (simp add: m1_def m0_def)
  then have mon: "10 * int m1 + int m0 = Mon t"
    using assms by (simp add: m_def)
  have yr: "1000 * int y3 + 100 * int y2 + 10 * int y1 + int y0 = Year t"
    using n assms(1) by (simp add: n_def)
  have "formatMonth t = [digitChar y3, digitChar y2, digitChar y1, digitChar y0, CHR ''-'',
      digitChar m1, digitChar m0]"
    using assms
    by (simp add: formatMonth_def appendInt4 appendInt2 n_def m_def y3_def y2_def y1_def y0_def m1_def m0_def)
  then show ?thesis
    using assms(3,4) by (simp add: d isDigit_digitChar digitVal_digitChar yr mon Let_def)
qed

lemma goDate_month_first:
  assumes "1 \<le> m" "m \<le> 12"
  shows "goDate y m 1 = \<lparr>Year = y, Mon = m, Day = 1\<rparr>"
proof -
  have "(m - 1) div 12 = 0" "(m - 1) mod 12 = m - 1"
    using assms by simp_all
  then show ?thesis
    by (simp add: goDate_first normYear_def normMonth_def)
qed

text \<open>
  Claim C10. When the argument loop of \<^verbatim>\<open>parseArgs\<close> is at \<^verbatim>\<open>-m\<close> or \<^verbatim>\<open>--month\<close> and the
  next argument is absent or starts with a dash, the loop goes on after the flag alone, with
  the month of the configuration set to the current time formatted as \<^verbatim>\<open>2006-01\<close>; nothing
  is rejected at the flag and the month is not left unset. For a current time in a year of
  four digits (0 to 9999) and a month from 1 to 12, that text parses back to the first day of
  the current month, so the validation at the end of \<^verbatim>\<open>parseArgs\<close> accepts it: a project
  path followed by the flag alone, or by the flag and \<^verbatim>\<open>--counts\<close>, gives a configuration
  with the current month, and \<^verbatim>\<open>renderCalendars\<close> with that month renders the one-element
  list of months holding the first day of the current month.
\<close>

theorem month_flag_defaults_to_current_month:
  assumes "flag = ''-m'' \<or> flag = ''--month''"
    and "case rest of [] \<Rightarrow> True | v # rest' \<Rightarrow> hasPrefix v ''-''"
    and "0 \<le> Year now" "Year now < 10000" "1 \<le> Mon now" "Mon now \<le> 12"
    and "projectPath \<noteq> []" "\<not> hasPrefix projectPath ''-''"
  shows "parseLoop now config (flag # rest)
       = parseLoop now (config\<lparr>Month := Some (formatMonth now)\<rparr>) rest
   \<and> parseMonth (formatMonth now) = Some \<lparr>Year = Year now, Mon = Mon now, Day = 1\<rparr>
   \<and> parseArgs now [projectPath, flag]
       = Inr \<lparr>ProjectPath = projectPath, FilterText = [], ShowCounts = False,
              Month = Some (formatMonth now)\<rparr>
   \<and> parseArgs now [projectPath, flag, ''--counts'']
       = Inr \<lparr>ProjectPath = projectPath, FilterText = [], ShowCounts = True,
              Month = Some (formatMonth now)\<rparr>
   \<and> renderCalendars postCounts showCounts (Some (formatMonth now)) today tty
       = ([], renderCalendarGrid [\<lparr>Year = Year now, Mon = Mon now, Day = 1\<rparr>]
                postCounts showCounts today tty)"
proof -
  have flag: "flag \<noteq> ''-f''" "flag \<noteq> ''--filter''" "flag \<noteq> ''-c''" "flag \<noteq> ''--counts''"
    using assms(1) by auto
  have step: "parseLoop now config (flag # rest)
       = parseLoop now (config\<lparr>Month := Some (formatMonth now)\<rparr>) rest" for config
    using assms(1,2) flag by (cases rest) auto
  have rt: "parseMonth (formatMonth now) = Some \<lparr>Year = Year now, Mon = Mon now, Day = 1\<rparr>"
    using assms(3-6) by (rule parseMonth_formatMonth)
  have path: "projectPath \<noteq> ''-f''" "projectPath \<noteq> ''--filter''" "projectPath \<noteq> ''-c''"
    "projectPath \<noteq> ''--counts''" "projectPath \<noteq> ''-m''" "projectPath \<noteq> ''--month''"
    using assms(8) by (auto simp: hasPrefix_def)
  have alone: "parseArgs now [projectPath, flag]
       = Inr \<lparr>ProjectPath = projectPath, FilterText = [], ShowCounts = False,
              Month = Some (formatMonth now)\<rparr>"
    using assms(1,7,8) flag path by (auto simp: parseArgs_def rt)
  have counts: "parseArgs now [projectPath, flag, ''--counts'']
       = Inr \<lparr>ProjectPath = projectPath, FilterText = [], ShowCounts = True,
              Month = Some (formatMonth now)\<rparr>"
    using assms(1,7,8) flag path by (auto simp: parseArgs_def rt hasPrefix_def)
  have render: "renderCalendars postCounts showCounts (Some (formatMonth now)) today tty
       = ([], renderCalendarGrid [\<lparr>Year = Year now, Mon = Mon now, Day = 1\<rparr>]
                postCounts showCounts today tty)"
    using assms(5,6) by (simp add: renderCalendars_def rt goDate_month_first)
  from step rt alone counts render show ?thesis
    by simp
qed

lemma month_2026_10: "formatMonth \<lparr>Year = 2026, Mon = 10, Day = 31\<rparr> = ''2026-10''"
  by (simp add: formatMonth_def appendInt_def Let_def digits.simps digitChar_def)

theorem month_flag_defaults_to_current_month_witness:
  "hasPrefix ''-c'' ''-''
   \<and> \<not> hasPrefix ''blog'' ''-''
   \<and> parseLoop \<lparr>Year = 2026, Mon = 10, Day = 31\<rparr>
         \<lparr>ProjectPath = ''blog'', FilterText = [], ShowCounts = False, Month = None\<rparr> [''-m'', ''-c'']
       = Inr \<lparr>ProjectPath = ''blog'', FilterText = [], ShowCounts = True, Month = Some ''2026-10''\<rparr>
   \<and> parseMonth ''2026-10'' = Some \<lparr>Year = 2026, Mon = 10, Day = 1\<rparr>
   \<and> parseArgs \<lparr>Year = 2026, Mon = 10, Day = 31\<rparr> [''blog'', ''-m'']
       = Inr \<lparr>ProjectPath = ''blog'', FilterText = [], ShowCounts = False, Month = Some ''2026-10''\<rparr>
   \<and> parseArgs \<lparr>Year = 2026, Mon = 10, Day = 31\<rparr> [''blog'', ''-m'', ''--counts'']
       = Inr \<lparr>ProjectPath = ''blog'', FilterText = [], ShowCounts = True, Month = Some ''2026-10''\<rparr>
   \<and> renderCalendars [] False (Some ''2026-10'') \<lparr>Year = 2026, Mon = 10, Day = 31\<rparr> None
       = ([], renderCalendarGrid [\<lparr>Year = 2026, Mon = 10, Day = 1\<rparr>] [] False
                \<lparr>Year = 2026, Mon = 10, Day = 31\<rparr> None)"
  using month_flag_defaults_to_current_month [of "''-m''" "[''-c'']"
      "\<lparr>Year = 2026, Mon = 10, Day = 31\<rparr>" "''blog''"
      "\<lparr>ProjectPath = ''blog'', FilterText = [], ShowCounts = False, Month = None\<rparr>"
      "[]" False "\<lparr>Year = 2026, Mon = 10, Day = 31\<rparr>" None]
  by (simp add: hasPrefix_def month_2026_10)

end
